theory Spec2Isabelle
  imports Main
begin

section \<open>Tracing interceptors of \<^verbatim>\<open>torch/csrc/autograd/TraceTypeManual.cpp\<close>\<close>

text \<open>
  The file under verification holds five hand-written kernels registered under the
  \<^verbatim>\<open>Tracer\<close> dispatch key (\<^verbatim>\<open>copy_\<close>, \<^verbatim>\<open>resize_\<close>, \<^verbatim>\<open>resize_as_\<close>,
  \<^verbatim>\<open>detach\<close>, \<^verbatim>\<open>detach_\<close>) and the registration block
  \<^verbatim>\<open>TORCH_LIBRARY_IMPL(aten, Tracer, m)\<close>. Every kernel reads and mutates thread-local
  state (the tracing state, the tracer dispatch mode) around a redispatch to the next
  kernel. The embedding passes that state explicitly as a \<open>world\<close>; a C++ exception is
  the value \<open>Inl e\<close>, returned together with the world as it stood when the exception
  was thrown, since mutations made before a throw are not undone by unwinding.
\<close>

subsection \<open>Runtime values\<close>

text \<open>
  A tensor handle: the identity of the runtime value (its \<^verbatim>\<open>TensorImpl\<close>) and the
  identity of the storage it views. Contents live in the heap of the world.
\<close>

datatype tensor = Tensor (impl: nat) (storage: nat)

datatype arg = ATensor tensor | ABool bool | AIntList "int list" | AMemoryFormat "nat option"

datatype error =
    NoKernelFound
  | DuplicateRegistration
  | NoActiveSession
  | UnboundValue
  | SchemaNotFound
  | BadArguments
  | NullPointer
  | NothingStashed

subsection \<open>Trace graph\<close>

text \<open>
  Modelled from the spec: the trace graph (\<^verbatim>\<open>torch::jit::Graph\<close>, \<^verbatim>\<open>Node\<close>,
  \<^verbatim>\<open>Value\<close>) is declared in headers that are not part of the sources. Section 3 of
  the specification: a symbolic value is "the array value produced by node N, output
  slot k" or "an input to the trace"; a trace node "records an operator name, an ordered
  list of input symbolic values (with names), an ordered list of output symbolic values,
  and a source location".
\<close>

datatype symval = NodeOutput nat nat | GraphInput nat

datatype symbol = aten_copy_' | aten_expand_as | aten_detach

record node =
  kind :: symbol
  inputs :: "(string option \<times> symval) list"
  outputs :: "symval list"
  source_range :: "nat option"

text \<open>
  Modelled from the spec: the trace graph, "nodes + symbolic values". Nodes are addressed
  by a handle (the \<^verbatim>\<open>Node*\<close> of the source): \<open>nodes\<close> is the store of every node
  created, \<open>block\<close> the handles of the nodes inserted into the graph, in insertion
  order. A node that was created but never inserted is not part of the trace.
\<close>

record graph =
  nodes :: "nat \<Rightarrow> node option"
  next_node :: nat
  block :: "nat list"

text \<open>
  Modelled from the spec: the warning codes; \<^verbatim>\<open>WARN_RESIZE\<close> is the only one the
  source names.
\<close>

datatype warn_kind = WARN_RESIZE

text \<open>
  Modelled from the spec: \<^verbatim>\<open>TracingState\<close> is declared in \<^verbatim>\<open>tracer.h\<close>,
  not part of the sources. The session "owns a Trace Graph and an identity map from
  runtime value identity to the symbolic value currently representing it"; it carries
  the "prefer-outplace" flag (\<^verbatim>\<open>force_outplace\<close> in the source) and receives the
  warnings. \<open>current_location\<close> is the source position the tracer would record now.
\<close>

record tracing_state =
  graph :: graph
  value_map :: "tensor \<Rightarrow> symval option"
  force_outplace :: bool
  warnings :: "(string \<times> warn_kind) list"
  current_location :: nat

subsection \<open>Thread-local world\<close>

text \<open>
  The thread-local state the interceptors read and write.
  \<open>tracing_state\<close>: the thread's session, if one is live.
  \<open>tracer_dispatch_disabled\<close>: the scoped tracer-disabled mode.
  \<open>int_array_stash\<close>: the names held by \<^verbatim>\<open>ArgumentStash\<close>.
  \<open>use_count\<close>: for each storage, the number of holders
  (\<^verbatim>\<open>self.storage().use_count()\<close>). \<open>heap\<close>: everything else the kernels mutate.
\<close>

record 'h world =
  tracing_state :: "tracing_state option"
  tracer_dispatch_disabled :: bool
  int_array_stash :: "string list"
  use_count :: "nat \<Rightarrow> nat"
  heap :: 'h

type_synonym ('a, 'h) outcome = "(error + 'a) \<times> 'h world"

type_synonym 'h call = "arg list \<Rightarrow> 'h world \<Rightarrow> (tensor, 'h) outcome"

subsection \<open>Tracer API\<close>

text \<open>
  Modelled from the spec: the functions of \<^verbatim>\<open>torch::jit::tracer\<close> and of
  \<^verbatim>\<open>torch::jit::Graph\<close> that the interceptors call are not part of the sources. Each
  definition below follows section 4.2 and the data model of section 3.
\<close>

text \<open>Modelled from the spec: \<^verbatim>\<open>isTracing\<close> is "isActive(): pure predicate".\<close>

definition isTracing :: "'h world \<Rightarrow> bool" where
  "isTracing w = (tracing_state w \<noteq> None)"

text \<open>
  Modelled from the spec: \<^verbatim>\<open>getTracingState\<close> is "current(): returns the live
  session or fails with NoActiveSession". \<open>with_state\<close> runs a block of tracer calls on
  the live session and stores the mutated session back, as the source does through the
  pointer it obtained.
\<close>

definition with_state ::
  "(tracing_state \<Rightarrow> (error + 'a) \<times> tracing_state) \<Rightarrow> 'h world \<Rightarrow> ('a, 'h) outcome" where
  "with_state m w =
     (case tracing_state w of
        None \<Rightarrow> (Inl NoActiveSession, w)
      | Some st \<Rightarrow> (case m st of (r, st') \<Rightarrow> (r, w\<lparr>tracing_state := Some st'\<rparr>)))"

text \<open>
  Modelled from the spec: \<^verbatim>\<open>Graph::create(kind, num_outputs)\<close> allocates a node with
  no inputs, the declared number of output slots and no source location; the node is
  not yet inserted.
\<close>

definition create :: "symbol \<Rightarrow> nat \<Rightarrow> tracing_state \<Rightarrow> nat \<times> tracing_state" where
  "create k num_outputs st =
     (let g = graph st; n = next_node g;
          nd = \<lparr>kind = k, inputs = [], outputs = map (NodeOutput n) [0..<num_outputs],
                source_range = None\<rparr>
      in (n, st\<lparr>graph := g\<lparr>nodes := (nodes g)(n \<mapsto> nd), next_node := Suc n\<rparr>\<rparr>))"

text \<open>
  Modelled from the spec: \<^verbatim>\<open>getValueTrace\<close> is "lookup(identity): returns the
  currently bound symbolic value or fails with UnboundValue".
\<close>

definition getValueTrace :: "tensor \<Rightarrow> tracing_state \<Rightarrow> error + symval" where
  "getValueTrace t st = (case value_map st t of None \<Rightarrow> Inl UnboundValue | Some v \<Rightarrow> Inr v)"

text \<open>
  Modelled from the spec: \<^verbatim>\<open>addInputs(node, name, tensor)\<close> appends the symbolic
  value of the tensor, with its name, to the inputs of the node.
\<close>

definition addInputs ::
  "nat \<Rightarrow> string \<Rightarrow> tensor \<Rightarrow> tracing_state \<Rightarrow> (error + unit) \<times> tracing_state" where
  "addInputs n name t st =
     (case getValueTrace t st of
        Inl e \<Rightarrow> (Inl e, st)
      | Inr v \<Rightarrow>
          (case nodes (graph st) n of
             None \<Rightarrow> (Inl NullPointer, st)
           | Some nd \<Rightarrow>
               (Inr (), st\<lparr>graph := (graph st)\<lparr>nodes := (nodes (graph st))
                   (n \<mapsto> nd\<lparr>inputs := inputs nd @ [(Some name, v)]\<rparr>)\<rparr>\<rparr>)))"

text \<open>Modelled from the spec: \<^verbatim>\<open>Graph::insertNode\<close> commits a node to the trace.\<close>

definition insertNode :: "nat \<Rightarrow> tracing_state \<Rightarrow> tracing_state" where
  "insertNode n st = st\<lparr>graph := (graph st)\<lparr>block := block (graph st) @ [n]\<rparr>\<rparr>"

text \<open>
  Modelled from the spec: \<^verbatim>\<open>Node::output()\<close> is the sole output of a node; it
  fails when the node does not have exactly one output.
\<close>

definition node_output :: "nat \<Rightarrow> tracing_state \<Rightarrow> error + symval" where
  "node_output n st =
     (case nodes (graph st) n of
        None \<Rightarrow> Inl NullPointer
      | Some nd \<Rightarrow> (case outputs nd of [v] \<Rightarrow> Inr v | _ \<Rightarrow> Inl NullPointer))"

text \<open>
  Modelled from the spec: \<^verbatim>\<open>Graph::insert(kind, args)\<close> creates a node of that
  kind with one output and the given positional (unnamed) inputs, inserts it, and returns
  its output. It does not record a source location: the source calls
  \<^verbatim>\<open>recordSourceLocation\<close> on the node afterwards.
\<close>

definition insert_op :: "symbol \<Rightarrow> symval list \<Rightarrow> tracing_state \<Rightarrow> (symval \<times> nat) \<times> tracing_state" where
  "insert_op k args st =
     (let g = graph st; n = next_node g;
          nd = \<lparr>kind = k, inputs = map (Pair None) args, outputs = [NodeOutput n 0],
                source_range = None\<rparr>
      in ((NodeOutput n 0, n),
          st\<lparr>graph := g\<lparr>nodes := (nodes g)(n \<mapsto> nd), next_node := Suc n,
                         block := block g @ [n]\<rparr>\<rparr>))"

text \<open>
  Modelled from the spec: \<^verbatim>\<open>recordSourceLocation(node)\<close> stores the current source
  position in the node.
\<close>

definition recordSourceLocation :: "nat \<Rightarrow> tracing_state \<Rightarrow> tracing_state" where
  "recordSourceLocation n st =
     (case nodes (graph st) n of
        None \<Rightarrow> st
      | Some nd \<Rightarrow>
          st\<lparr>graph := (graph st)\<lparr>nodes := (nodes (graph st))
              (n \<mapsto> nd\<lparr>source_range := Some (current_location st)\<rparr>)\<rparr>\<rparr>)"

text \<open>
  Modelled from the spec: \<^verbatim>\<open>ensureUniqueIfOutOfPlaced(name, tensor)\<close> is the "ensure
  unique" step: "any stale alias bindings for that identity are invalidated - if other
  live bindings point at the same identity, they must be treated as having gone stale".
  The aliases of a tensor are the other tensors that view its storage; their bindings are
  removed from the identity map. The name is used for diagnostics only.
\<close>

definition ensureUniqueIfOutOfPlaced :: "string \<Rightarrow> tensor \<Rightarrow> tracing_state \<Rightarrow> tracing_state" where
  "ensureUniqueIfOutOfPlaced name t st =
     st\<lparr>value_map := (\<lambda>u. if u \<noteq> t \<and> storage u = storage t then None else value_map st u)\<rparr>"

text \<open>
  Modelled from the spec: \<^verbatim>\<open>setOutput(value, tensor)\<close> is "bind(identity, value):
  overwrites any prior binding for identity".
\<close>

definition setOutput :: "symval \<Rightarrow> tensor \<Rightarrow> tracing_state \<Rightarrow> tracing_state" where
  "setOutput v t st = st\<lparr>value_map := (value_map st)(t \<mapsto> v)\<rparr>"

text \<open>
  Modelled from the spec: \<^verbatim>\<open>addOutput(node, tensor)\<close> is "bind the identity to a
  newly added output slot on that node".
\<close>

definition addOutput :: "nat \<Rightarrow> tensor \<Rightarrow> tracing_state \<Rightarrow> (error + unit) \<times> tracing_state" where
  "addOutput n t st =
     (case nodes (graph st) n of
        None \<Rightarrow> (Inl NullPointer, st)
      | Some nd \<Rightarrow>
          (let v = NodeOutput n (length (outputs nd));
               st' = st\<lparr>graph := (graph st)\<lparr>nodes := (nodes (graph st))
                        (n \<mapsto> nd\<lparr>outputs := outputs nd @ [v]\<rparr>)\<rparr>\<rparr>
           in (Inr (), setOutput v t st')))"

text \<open>
  Modelled from the spec: \<^verbatim>\<open>warn(reason, kind)\<close> is the warning sink, "a single
  call emitting a named warning code with the operator name".
\<close>

definition warn :: "string \<Rightarrow> warn_kind \<Rightarrow> tracing_state \<Rightarrow> tracing_state" where
  "warn reason k st = st\<lparr>warnings := warnings st @ [(reason, k)]\<rparr>"

text \<open>
  Modelled from the spec: \<^verbatim>\<open>delValueTrace(tensor)\<close> is "remove any existing binding
  for the destination identity".
\<close>

definition delValueTrace :: "tensor \<Rightarrow> tracing_state \<Rightarrow> tracing_state" where
  "delValueTrace t st = st\<lparr>value_map := (value_map st)(t := None)\<rparr>"

text \<open>
  \<^verbatim>\<open>ArgumentStash\<close> is not part of the sources, and the specification does not
  describe it. The definition follows the one call the source makes, at line 63:
  \<^verbatim>\<open>ArgumentStash::popIntArrayRef("size")\<close>, the first statement of the tracing block of
  \<^verbatim>\<open>resize_\<close>, made without a test that anything is stashed. A pop takes the entry
  stashed under the name out of the stash and hands it back (the source drops it). With no
  entry under the name there is nothing to hand back: the pop throws, and the statements
  after it are not reached.
\<close>

definition popIntArrayRef :: "string \<Rightarrow> 'h world \<Rightarrow> (unit, 'h) outcome" where
  "popIntArrayRef name w =
     (if name \<in> set (int_array_stash w)
      then (Inr (), w\<lparr>int_array_stash := removeAll name (int_array_stash w)\<rparr>)
      else (Inl NothingStashed, w))"

subsection \<open>Dispatcher\<close>

text \<open>
  Modelled from the spec: \<^verbatim>\<open>c10::Dispatcher\<close> and \<^verbatim>\<open>c10::DispatchKey\<close> are not
  part of the sources. Section 4.1: a registry maps an operator and a capability tag to a
  kernel; tags form "a small closed, totally-ordered enumeration". Three tags are kept,
  \<open>Tracer\<close> (the only one the source names) having the highest priority. A kernel
  receives the boxed arguments and the thread's world; a fallthrough is "a marker kernel
  that performs redispatch immediately with no side effect".
\<close>

datatype dispatch_key = Backend | Autograd | Tracer

datatype 'h kernel = Kernel "'h call" | Fallthrough

record 'h dispatcher =
  schemas :: "(string \<times> string) list"
  kernels :: "string \<times> dispatch_key \<Rightarrow> 'h kernel option"

text \<open>Modelled from the spec: the total order of the tags, highest priority first.\<close>

definition keys_by_priority :: "dispatch_key list" where
  "keys_by_priority = [Tracer, Autograd, Backend]"

text \<open>
  Modelled from the spec: "register(operatorId, tag, kernel) fails with
  DuplicateRegistration if (operatorId, tag) already bound".
\<close>

definition register ::
  "string \<Rightarrow> dispatch_key \<Rightarrow> 'h kernel \<Rightarrow> 'h dispatcher \<Rightarrow> error + 'h dispatcher" where
  "register opname key k d =
     (case kernels d (opname, key) of
        Some _ \<Rightarrow> Inl DuplicateRegistration
      | None \<Rightarrow> Inr (d\<lparr>kernels := (kernels d)((opname, key) \<mapsto> k)\<rparr>))"

text \<open>
  Modelled from the spec: "the highest-priority tag present in the capability set with a
  registered kernel wins; if none found beyond fallthroughs, lookup fails". \<open>resolve\<close>
  walks the candidate tags in priority order and returns the first kernel that is not a
  fallthrough.
\<close>

fun resolve :: "'h dispatcher \<Rightarrow> string \<Rightarrow> dispatch_key list \<Rightarrow> (dispatch_key \<times> 'h call) option" where
  "resolve d opname [] = None"
| "resolve d opname (k # ks) =
     (case kernels d (opname, k) of
        Some (Kernel f) \<Rightarrow> Some (k, f)
      | Some Fallthrough \<Rightarrow> resolve d opname ks
      | None \<Rightarrow> resolve d opname ks)"

text \<open>
  Modelled from the spec: the tags a call considers. Section 5: while the
  tracer-disabled mode is active, "any call to dispatch/redispatch on the thread skips
  the tracing capability entirely regardless of the capability set passed in".
\<close>

definition candidates :: "dispatch_key list \<Rightarrow> 'h world \<Rightarrow> dispatch_key list" where
  "candidates active w =
     filter (\<lambda>k. k \<in> set active \<and> \<not> (k = Tracer \<and> tracer_dispatch_disabled w)) keys_by_priority"

text \<open>
  Modelled from the spec: "dispatch resolves the kernel for the highest-priority tag in
  activeCapabilities that has a registration, invokes it, and returns its result; fails
  with NoKernelFound if no tag matches".
\<close>

definition dispatch :: "'h dispatcher \<Rightarrow> string \<Rightarrow> dispatch_key list \<Rightarrow> 'h call" where
  "dispatch d opname active args w =
     (case resolve d opname (candidates active w) of
        None \<Rightarrow> (Inl NoKernelFound, w)
      | Some (k, f) \<Rightarrow> f args w)"

text \<open>
  Modelled from the spec: "redispatch behaves as dispatch but first removes currentTag
  from the active set". The source passes no capability set; every tag is a candidate.
\<close>

definition redispatch :: "'h dispatcher \<Rightarrow> string \<Rightarrow> dispatch_key \<Rightarrow> 'h call" where
  "redispatch d opname current args w =
     dispatch d opname (removeAll current keys_by_priority) args w"

text \<open>
  Modelled from the spec: \<^verbatim>\<open>findSchemaOrThrow(name, overload)\<close> returns the handle of
  a defined operator, and throws when the schema registry does not know it.
\<close>

definition findSchemaOrThrow :: "'h dispatcher \<Rightarrow> string \<Rightarrow> string \<Rightarrow> error + string" where
  "findSchemaOrThrow d name overload =
     (if (name, overload) \<in> set (schemas d) then Inr name else Inl SchemaNotFound)"

text \<open>
  Modelled from the spec: \<^verbatim>\<open>at::tracer::impl::NoTracerDispatchMode\<close> is declared in
  \<^verbatim>\<open>ATen/TracerMode.h\<close>, not part of the sources. It is a scoped guard: the mode is
  entered when the guard is constructed and the previous mode is restored when the block
  is left, by return or by exception ("scoped acquisition/release, guaranteed restoration
  on exceptional exit").
\<close>

definition NoTracerDispatchMode ::
  "('h world \<Rightarrow> ('a, 'h) outcome) \<Rightarrow> 'h world \<Rightarrow> ('a, 'h) outcome" where
  "NoTracerDispatchMode body w =
     (case body (w\<lparr>tracer_dispatch_disabled := True\<rparr>) of
        (r, w') \<Rightarrow> (r, w'\<lparr>tracer_dispatch_disabled := tracer_dispatch_disabled w\<rparr>))"

subsection \<open>Sequencing\<close>

text \<open>
  A statement that throws ends the function; the statements after it run on the state
  it left otherwise.
\<close>

definition bind_r ::
  "(error + 'a) \<times> 's \<Rightarrow> ('a \<Rightarrow> 's \<Rightarrow> (error + 'b) \<times> 's) \<Rightarrow> (error + 'b) \<times> 's" where
  "bind_r r f = (case r of (Inl e, s) \<Rightarrow> (Inl e, s) | (Inr x, s) \<Rightarrow> f x s)"

definition bind_v ::
  "error + 'a \<Rightarrow> 's \<Rightarrow> ('a \<Rightarrow> (error + 'b) \<times> 's) \<Rightarrow> (error + 'b) \<times> 's" where
  "bind_v r s f = (case r of Inl e \<Rightarrow> (Inl e, s) | Inr x \<Rightarrow> f x)"

subsection \<open>The interceptors\<close>

text \<open>
  The source is compiled with tracing (\<^verbatim>\<open>PYTORCH_DISABLE_TRACING\<close> undefined). Each
  definition follows its C++ function statement by statement: the first tracing block,
  the lookup of the operator (the \<^verbatim>\<open>static auto op\<close>, initialised when control first
  reaches it), the redispatch inside the scope of the guard, the second tracing block.
  \<open>None\<close> stands for \<^verbatim>\<open>nullptr\<close>. A name cannot end with an underscore here, so the
  in-place functions \<^verbatim>\<open>copy_\<close>, \<^verbatim>\<open>resize_\<close>, \<^verbatim>\<open>resize_as_\<close> and \<^verbatim>\<open>detach_\<close>
  carry a prime after it, as does the symbol \<^verbatim>\<open>aten::copy_\<close>.
\<close>

text \<open>\<^verbatim>\<open>copy_\<close>, lines 15 to 55 of the source.\<close>

definition copy_' ::
  "'h dispatcher \<Rightarrow> tensor \<Rightarrow> tensor \<Rightarrow> bool \<Rightarrow> 'h world \<Rightarrow> (tensor, 'h) outcome" where
  "copy_' d self src non_blocking w0 =
     bind_r
       (if isTracing w0 then
          with_state (\<lambda>state.
            if force_outplace state \<and> use_count w0 (storage self) \<le> 1 then
              (case create aten_expand_as 1 state of (node, s1) \<Rightarrow>
                 bind_r (addInputs node ''src'' src s1) (\<lambda>_ s2.
                 bind_r (addInputs node ''self'' self s2) (\<lambda>_ s3.
                 let s4 = insertNode node s3 in
                 bind_v (node_output node s4) s4 (\<lambda>output.
                 (Inr (Some output),
                  ensureUniqueIfOutOfPlaced ''copy_ (possibly due to an assignment)'' self s4)))))
            else
              bind_v (getValueTrace self state) state (\<lambda>vself.
              bind_v (getValueTrace src state) state (\<lambda>vsrc.
              (case insert_op aten_copy_' [vself, vsrc] state of ((output, node), s1) \<Rightarrow>
                 let s2 = recordSourceLocation node s1 in
                 (Inr (Some output),
                  ensureUniqueIfOutOfPlaced ''copy_ (possibly due to an assignment)'' self s2))))) w0
        else (Inr None, w0))
       (\<lambda>output w1.
          bind_v (findSchemaOrThrow d ''aten::copy_'' []) w1 (\<lambda>op.
          bind_r (NoTracerDispatchMode
                    (redispatch d op Tracer [ATensor self, ATensor src, ABool non_blocking]) w1)
            (\<lambda>_ w2.
               if isTracing w2 then
                 (case output of
                    None \<Rightarrow> (Inl NullPointer, w2)
                  | Some v \<Rightarrow>
                      bind_r (with_state (\<lambda>st. (Inr (), setOutput v self st)) w2)
                        (\<lambda>_ w3. (Inr self, w3)))
               else (Inr self, w2))))"

text \<open>\<^verbatim>\<open>resize_\<close>, lines 57 to 80 of the source.\<close>

definition resize_' ::
  "'h dispatcher \<Rightarrow> tensor \<Rightarrow> int list \<Rightarrow> nat option \<Rightarrow> 'h world \<Rightarrow> (tensor, 'h) outcome" where
  "resize_' d self size' optional_memory_format w0 =
     bind_r
       (if isTracing w0 then
          bind_r (popIntArrayRef ''size'' w0) (\<lambda>_ wa.
          with_state (\<lambda>st. (Inr (), delValueTrace self (warn ''resize_'' WARN_RESIZE st))) wa)
        else (Inr (), w0))
       (\<lambda>_ w1.
          bind_v (findSchemaOrThrow d ''aten::resize_'' []) w1 (\<lambda>op.
          bind_r (NoTracerDispatchMode
                    (redispatch d op Tracer
                       [ATensor self, AIntList size', AMemoryFormat optional_memory_format]) w1)
            (\<lambda>_ w2. (Inr self, w2))))"

text \<open>\<^verbatim>\<open>resize_as_\<close>, lines 82 to 103 of the source.\<close>

definition resize_as_' ::
  "'h dispatcher \<Rightarrow> tensor \<Rightarrow> tensor \<Rightarrow> nat option \<Rightarrow> 'h world \<Rightarrow> (tensor, 'h) outcome" where
  "resize_as_' d self the_template optional_memory_format w0 =
     bind_r
       (if isTracing w0 then
          with_state (\<lambda>st. (Inr (), delValueTrace self (warn ''resize_as_'' WARN_RESIZE st))) w0
        else (Inr (), w0))
       (\<lambda>_ w1.
          bind_v (findSchemaOrThrow d ''aten::resize_as_'' []) w1 (\<lambda>op.
          bind_r (NoTracerDispatchMode
                    (redispatch d op Tracer
                       [ATensor self, ATensor the_template, AMemoryFormat optional_memory_format]) w1)
            (\<lambda>_ w2. (Inr self, w2))))"

text \<open>\<^verbatim>\<open>detach\<close>, lines 105 to 132 of the source.\<close>

definition detach :: "'h dispatcher \<Rightarrow> tensor \<Rightarrow> 'h world \<Rightarrow> (tensor, 'h) outcome" where
  "detach d self w0 =
     bind_r
       (if isTracing w0 then
          with_state (\<lambda>st.
            (case create aten_detach 0 st of (node, s1) \<Rightarrow>
               let s2 = recordSourceLocation node s1 in
               bind_r (addInputs node ''self'' self s2) (\<lambda>_ s3.
               (Inr (Some node), insertNode node s3)))) w0
        else (Inr None, w0))
       (\<lambda>node w1.
          bind_v (findSchemaOrThrow d ''aten::detach'' []) w1 (\<lambda>op.
          bind_r (NoTracerDispatchMode (redispatch d op Tracer [ATensor self]) w1)
            (\<lambda>result w2.
               if isTracing w2 then
                 (case node of
                    None \<Rightarrow> (Inl NullPointer, w2)
                  | Some n \<Rightarrow>
                      bind_r (with_state (addOutput n result) w2) (\<lambda>_ w3. (Inr result, w3)))
               else (Inr result, w2))))"

text \<open>\<^verbatim>\<open>detach_\<close>, lines 134 to 162 of the source.\<close>

definition detach_' :: "'h dispatcher \<Rightarrow> tensor \<Rightarrow> 'h world \<Rightarrow> (tensor, 'h) outcome" where
  "detach_' d self w0 =
     bind_r
       (if isTracing w0 then
          with_state (\<lambda>st.
            (case create aten_detach 0 st of (node, s1) \<Rightarrow>
               let s2 = recordSourceLocation node s1 in
               bind_r (addInputs node ''self'' self s2) (\<lambda>_ s3.
               let s4 = insertNode node s3 in
               (Inr (Some node), ensureUniqueIfOutOfPlaced ''detach_'' self s4)))) w0
        else (Inr None, w0))
       (\<lambda>node w1.
          bind_v (findSchemaOrThrow d ''aten::detach_'' []) w1 (\<lambda>op.
          bind_r (NoTracerDispatchMode (redispatch d op Tracer [ATensor self]) w1)
            (\<lambda>_ w2.
               if isTracing w2 then
                 (case node of
                    None \<Rightarrow> (Inl NullPointer, w2)
                  | Some n \<Rightarrow>
                      bind_r (with_state (addOutput n self) w2) (\<lambda>_ w3. (Inr self, w3)))
               else (Inr self, w2))))"

subsection \<open>Registration\<close>

text \<open>
  A registered kernel is called with boxed arguments; these adapters unpack them for the
  typed C++ functions. The interceptors reach the dispatcher through
  \<^verbatim>\<open>c10::Dispatcher::singleton()\<close>; here they are closed over the dispatcher the block
  extends. Their redispatch leaves the \<open>Tracer\<close> tag out, so the entries the block adds
  make no difference to them.
\<close>

definition call_copy_' :: "'h dispatcher \<Rightarrow> 'h call" where
  "call_copy_' d args w =
     (case args of
        [ATensor self, ATensor src, ABool non_blocking] \<Rightarrow> copy_' d self src non_blocking w
      | _ \<Rightarrow> (Inl BadArguments, w))"

definition call_resize_' :: "'h dispatcher \<Rightarrow> 'h call" where
  "call_resize_' d args w =
     (case args of
        [ATensor self, AIntList size', AMemoryFormat f] \<Rightarrow> resize_' d self size' f w
      | _ \<Rightarrow> (Inl BadArguments, w))"

definition call_resize_as_' :: "'h dispatcher \<Rightarrow> 'h call" where
  "call_resize_as_' d args w =
     (case args of
        [ATensor self, ATensor the_template, AMemoryFormat f] \<Rightarrow> resize_as_' d self the_template f w
      | _ \<Rightarrow> (Inl BadArguments, w))"

definition call_detach :: "'h dispatcher \<Rightarrow> 'h call" where
  "call_detach d args w =
     (case args of [ATensor self] \<Rightarrow> detach d self w | _ \<Rightarrow> (Inl BadArguments, w))"

definition call_detach_' :: "'h dispatcher \<Rightarrow> 'h call" where
  "call_detach_' d args w =
     (case args of [ATensor self] \<Rightarrow> detach_' d self w | _ \<Rightarrow> (Inl BadArguments, w))"

text \<open>
  Modelled from the spec: \<^verbatim>\<open>m.impl(name, kernel)\<close> inside
  \<^verbatim>\<open>TORCH_LIBRARY_IMPL(aten, Tracer, m)\<close> is \<open>register\<close> for the operator of that name
  in the namespace \<^verbatim>\<open>aten\<close> under the \<open>Tracer\<close> tag; a statement that fails ends the
  block.
\<close>

definition impl :: "string \<Rightarrow> 'h kernel \<Rightarrow> 'h dispatcher \<Rightarrow> error + 'h dispatcher" where
  "impl name k m = register (''aten::'' @ name) Tracer k m"

fun impl_all :: "(string \<times> 'h kernel) list \<Rightarrow> 'h dispatcher \<Rightarrow> error + 'h dispatcher" where
  "impl_all [] m = Inr m"
| "impl_all ((name, k) # rest) m =
     (case impl name k m of Inl e \<Rightarrow> Inl e | Inr m' \<Rightarrow> impl_all rest m')"

text \<open>
  The statements of the registration block, lines 164 to 180 of the source, in their
  order.
\<close>

definition tracer_impls :: "'h dispatcher \<Rightarrow> (string \<times> 'h kernel) list" where
  "tracer_impls d =
     [(''resize_'', Kernel (call_resize_' d)),
      (''resize_as_'', Kernel (call_resize_as_' d)),
      (''detach'', Kernel (call_detach d)),
      (''detach_'', Kernel (call_detach_' d)),
      (''copy_'', Kernel (call_copy_' d)),
      (''backward'', Fallthrough),
      (''set_data'', Fallthrough),
      (''data'', Fallthrough),
      (''is_leaf'', Fallthrough),
      (''output_nr'', Fallthrough),
      (''_version'', Fallthrough),
      (''requires_grad_'', Fallthrough),
      (''retain_grad'', Fallthrough)]"

definition TORCH_LIBRARY_IMPL_aten_Tracer :: "'h dispatcher \<Rightarrow> error + 'h dispatcher" where
  "TORCH_LIBRARY_IMPL_aten_Tracer d = impl_all (tracer_impls d) d"

fun is_fallthrough :: "'h kernel \<Rightarrow> bool" where
  "is_fallthrough Fallthrough = True"
| "is_fallthrough (Kernel f) = False"

definition fallthrough_ops :: "'h dispatcher \<Rightarrow> string list" where
  "fallthrough_ops d = map fst (filter (\<lambda>(n, k). is_fallthrough k) (tracer_impls d))"

definition interceptor_ops :: "'h dispatcher \<Rightarrow> string list" where
  "interceptor_ops d = map fst (filter (\<lambda>(n, k). \<not> is_fallthrough k) (tracer_impls d))"

subsection \<open>Properties of the kernels below the tracer\<close>

text \<open>
  The kernels registered under the other tags are the real computation. Section 5 of
  the specification: in tracer-disabled mode their own operator calls are not traced.
  \<open>quiet_when_disabled d\<close> says so of every such kernel of \<open>d\<close>: run in
  tracer-disabled mode, it leaves the tracing state as it found it.
\<close>

definition quiet_when_disabled :: "'h dispatcher \<Rightarrow> bool" where
  "quiet_when_disabled d =
     (\<forall>opname k f args w.
        k \<noteq> Tracer \<and> kernels d (opname, k) = Some (Kernel f) \<and> tracer_dispatch_disabled w
        \<longrightarrow> tracing_state (snd (f args w)) = tracing_state w)"

text \<open>The number of nodes of the trace graph of a world; none without a session.\<close>

definition node_count :: "'h world \<Rightarrow> nat" where
  "node_count w = (case tracing_state w of None \<Rightarrow> 0 | Some st \<Rightarrow> length (block (graph st)))"

text \<open>
  \<open>redispatch_fails d opname\<close>: the registry has no kernel for the real execution of
  the operator, so that every redispatch from the tracer fails with \<open>NoKernelFound\<close>.
\<close>

definition redispatch_fails :: "'h dispatcher \<Rightarrow> string \<Rightarrow> bool" where
  "redispatch_fails d opname =
     (\<forall>args w. redispatch d opname Tracer args w = (Inl NoKernelFound, w))"

text \<open>
  \<open>sessionless_kernels d\<close>: with no session alive, a kernel below the tracer opens none,
  and the tracer-disabled mode makes no difference to what it does.
\<close>

definition sessionless_kernels :: "'h dispatcher \<Rightarrow> bool" where
  "sessionless_kernels d =
     (\<forall>opname k f args w b.
        k \<noteq> Tracer \<and> kernels d (opname, k) = Some (Kernel f) \<and> tracing_state w = None
        \<longrightarrow> tracing_state (snd (f args w)) = None
            \<and> f args (w\<lparr>tracer_dispatch_disabled := b\<rparr>)
                = (fst (f args w), (snd (f args w))\<lparr>tracer_dispatch_disabled := b\<rparr>))"

text \<open>
  \<open>returns_self d opname\<close>: the kernels of an in-place operator return the tensor they
  were given as first argument (the C++ functions return \<^verbatim>\<open>Tensor &\<close>).
\<close>

definition returns_self :: "'h dispatcher \<Rightarrow> string \<Rightarrow> bool" where
  "returns_self d opname =
     (\<forall>k f self rest w r w'.
        k \<noteq> Tracer \<and> kernels d (opname, k) = Some (Kernel f)
        \<and> f (ATensor self # rest) w = (Inr r, w') \<longrightarrow> r = self)"

text \<open>
  \<open>runs_kernel_in_scope d name args w out ret\<close>: the outcome \<open>out\<close> of a call made in
  the world \<open>w\<close> is that of one redispatch of the operator past the tracer, with these
  arguments, made in a world \<open>w1\<close> in which the tracer-disabled mode is on and the heap
  and the use counts are those of \<open>w\<close>. The heap and the use counts after the call are
  those the kernel left, the mode of the caller is back, a failure of the redispatch is
  the failure of the call, and a success \<open>x\<close> of a redispatch that left the session alone
  is returned as \<open>ret x\<close>.
\<close>

definition runs_kernel_in_scope ::
  "'h dispatcher \<Rightarrow> string \<Rightarrow> arg list \<Rightarrow> 'h world \<Rightarrow> (tensor, 'h) outcome
     \<Rightarrow> (tensor \<Rightarrow> tensor) \<Rightarrow> bool" where
  "runs_kernel_in_scope d name args w out ret =
     (\<exists>w1 r w2.
        tracer_dispatch_disabled w1 \<and> heap w1 = heap w \<and> use_count w1 = use_count w
        \<and> redispatch d name Tracer args w1 = (r, w2)
        \<and> heap (snd out) = heap w2 \<and> use_count (snd out) = use_count w2
        \<and> tracer_dispatch_disabled (snd out) = tracer_dispatch_disabled w
        \<and> (\<forall>e. r = Inl e \<longrightarrow> fst out = Inl e)
        \<and> (\<forall>x. r = Inr x \<and> tracing_state w2 = tracing_state w1 \<longrightarrow> fst out = Inr (ret x)))"

text \<open>
  The comparison point of the pass-through property, in the words of the specification:
  "invoking the underlying kernel directly". The operator is looked up and the kernel
  registered below the tracing capability is run on the caller's world, with no
  interceptor around it.
\<close>

definition invoke_directly :: "'h dispatcher \<Rightarrow> string \<Rightarrow> 'h call" where
  "invoke_directly d name args w =
     bind_v (findSchemaOrThrow d name []) w (\<lambda>op. redispatch d op Tracer args w)"

subsection \<open>Example worlds\<close>

text \<open>
  Three tensors: \<open>t_self\<close> and \<open>t_view\<close> view the same storage, \<open>t_src\<close> has its own.
  The heap of the examples is a counter the kernels advance.
\<close>

definition t_self :: tensor where "t_self = Tensor 1 10"
definition t_src :: tensor where "t_src = Tensor 2 20"
definition t_view :: tensor where "t_view = Tensor 3 10"

definition backend_inplace :: "nat call" where
  "backend_inplace args w =
     (case args of
        ATensor t # rest \<Rightarrow> (Inr t, w\<lparr>heap := Suc (heap w)\<rparr>)
      | _ \<Rightarrow> (Inl BadArguments, w))"

definition backend_detach :: "nat call" where
  "backend_detach args w =
     (case args of
        [ATensor t] \<Rightarrow> (Inr (Tensor (heap w) (storage t)), w\<lparr>heap := Suc (heap w)\<rparr>)
      | _ \<Rightarrow> (Inl BadArguments, w))"

definition aten_schemas :: "(string \<times> string) list" where
  "aten_schemas =
     [(''aten::copy_'', []), (''aten::resize_'', []), (''aten::resize_as_'', []),
      (''aten::detach'', []), (''aten::detach_'', []), (''aten::is_leaf'', [])]"

text \<open>A dispatcher with a backend kernel for each operator, and one with none.\<close>

definition d_real :: "nat dispatcher" where
  "d_real =
     \<lparr>schemas = aten_schemas,
      kernels = map_of
        [((''aten::copy_'', Backend), Kernel backend_inplace),
         ((''aten::resize_'', Backend), Kernel backend_inplace),
         ((''aten::resize_as_'', Backend), Kernel backend_inplace),
         ((''aten::detach'', Backend), Kernel backend_detach),
         ((''aten::detach_'', Backend), Kernel backend_inplace),
         ((''aten::is_leaf'', Backend), Kernel backend_inplace)]\<rparr>"

definition d_bare :: "nat dispatcher" where
  "d_bare = \<lparr>schemas = aten_schemas, kernels = (\<lambda>_. None)\<rparr>"

text \<open>Dispatchers in which a single operator has no kernel.\<close>

definition without_kernel :: "string \<Rightarrow> nat dispatcher" where
  "without_kernel name = d_real\<lparr>kernels := (kernels d_real)((name, Backend) := None)\<rparr>"

text \<open>
  A kernel that writes into the heap the mode it is run in: 1 in the tracer-disabled
  mode, 2 outside it. The example worlds start with another heap.
\<close>

definition backend_probe :: "nat call" where
  "backend_probe args w =
     (case args of
        ATensor t # rest \<Rightarrow>
          (Inr t, w\<lparr>heap := (if tracer_dispatch_disabled w then 1 else 2)\<rparr>)
      | _ \<Rightarrow> (Inl BadArguments, w))"

definition d_probe :: "nat dispatcher" where
  "d_probe =
     \<lparr>schemas = aten_schemas,
      kernels = map_of
        [((''aten::copy_'', Backend), Kernel backend_probe),
         ((''aten::resize_'', Backend), Kernel backend_probe),
         ((''aten::resize_as_'', Backend), Kernel backend_probe),
         ((''aten::detach'', Backend), Kernel backend_probe),
         ((''aten::detach_'', Backend), Kernel backend_probe)]\<rparr>"

text \<open>
  A dispatcher whose kernels refuse to run outside the tracer-disabled mode.
\<close>

definition only_when_disabled :: "nat call \<Rightarrow> nat call" where
  "only_when_disabled f args w =
     (if tracer_dispatch_disabled w then f args w else (Inl BadArguments, w))"

definition d_strict :: "nat dispatcher" where
  "d_strict =
     \<lparr>schemas = aten_schemas,
      kernels = map_of
        [((''aten::copy_'', Backend), Kernel (only_when_disabled backend_inplace)),
         ((''aten::resize_'', Backend), Kernel (only_when_disabled backend_inplace)),
         ((''aten::resize_as_'', Backend), Kernel (only_when_disabled backend_inplace)),
         ((''aten::detach'', Backend), Kernel (only_when_disabled backend_detach)),
         ((''aten::detach_'', Backend), Kernel (only_when_disabled backend_inplace)),
         ((''aten::is_leaf'', Backend), Kernel (only_when_disabled backend_inplace))]\<rparr>"

text \<open>
  A session with an empty graph in which the three tensors are bound to trace inputs,
  and the world around it; \<open>fo\<close> is the prefer-outplace flag. The storage of \<open>t_self\<close>
  has two holders (\<open>t_self\<close> and \<open>t_view\<close>), every other storage has one.
\<close>

definition session0 :: "bool \<Rightarrow> tracing_state" where
  "session0 fo =
     \<lparr>graph = \<lparr>nodes = (\<lambda>_. None), next_node = 0, block = []\<rparr>,
      value_map = [t_self \<mapsto> GraphInput 0, t_src \<mapsto> GraphInput 1, t_view \<mapsto> GraphInput 2],
      force_outplace = fo, warnings = [], current_location = 7\<rparr>"

definition traced_world :: "bool \<Rightarrow> nat world" where
  "traced_world fo =
     \<lparr>tracing_state = Some (session0 fo), tracer_dispatch_disabled = False,
      int_array_stash = [''size''], use_count = (\<lambda>s. if s = 10 then 2 else 1), heap = 100\<rparr>"


definition untraced_world :: "nat world" where
  "untraced_world =
     \<lparr>tracing_state = None, tracer_dispatch_disabled = False,
      int_array_stash = [], use_count = (\<lambda>s. if s = 10 then 2 else 1), heap = 100\<rparr>"

text \<open>The session of a world after a call, for reading the examples.\<close>

definition session_after :: "('a, 'h) outcome \<Rightarrow> tracing_state option" where
  "session_after r = tracing_state (snd r)"


definition node_after :: "('a, 'h) outcome \<Rightarrow> nat \<Rightarrow> node option" where
  "node_after r n = (case session_after r of None \<Rightarrow> None | Some s \<Rightarrow> nodes (graph s) n)"

text \<open>
  The dispatcher \<open>d_real\<close> after the registration block, and a kernel for
  \<^verbatim>\<open>is_leaf\<close> that calls the operator \<^verbatim>\<open>detach\<close> through it, with the tracer tag
  among the tags of the call. \<open>d_nested\<close> has this kernel for \<^verbatim>\<open>is_leaf\<close>, and
  \<open>m_nested\<close> is \<open>d_nested\<close> after the registration block.
\<close>

definition m_real :: "nat dispatcher" where
  "m_real = (case TORCH_LIBRARY_IMPL_aten_Tracer d_real of Inr m \<Rightarrow> m | Inl e \<Rightarrow> d_real)"

definition leaf_via_detach :: "nat call" where
  "leaf_via_detach args w = dispatch m_real ''aten::detach'' [Tracer, Backend] args w"

definition d_nested :: "nat dispatcher" where
  "d_nested =
     d_real\<lparr>kernels := (kernels d_real)((''aten::is_leaf'', Backend) \<mapsto> Kernel leaf_via_detach)\<rparr>"

definition m_nested :: "nat dispatcher" where
  "m_nested =
     (case TORCH_LIBRARY_IMPL_aten_Tracer d_nested of Inr m \<Rightarrow> m | Inl e \<Rightarrow> d_nested)"

section \<open>Verification\<close>

subsection \<open>Sequencing, resolution and the scoped guard\<close>

lemma bind_r_simps [simp]:
  "bind_r (Inl e, s) f = (Inl e, s)"
  "bind_r (Inr x, s) f = f x s"
  by (simp_all add: bind_r_def)

lemma bind_v_simps [simp]:
  "bind_v (Inl e) s g = (Inl e, s)"
  "bind_v (Inr x) s g = g x"
  by (simp_all add: bind_v_def)

lemma redispatch_Tracer:
  "redispatch d opname Tracer args w =
     (case resolve d opname [Autograd, Backend] of
        None \<Rightarrow> (Inl NoKernelFound, w)
      | Some (k, f) \<Rightarrow> f args w)"
  by (simp add: redispatch_def dispatch_def candidates_def keys_by_priority_def)

lemma resolve_below:
  "resolve d opname [Autograd, Backend] = Some (k, f) \<Longrightarrow>
     k \<noteq> Tracer \<and> kernels d (opname, k) = Some (Kernel f)"
  by (auto split: option.splits kernel.splits)

lemma resolve_key: "resolve d opname ks = Some (k, f) \<Longrightarrow> k \<in> set ks"
  by (induction ks) (auto split: option.splits kernel.splits)

lemma resolve_registered:
  "resolve d opname ks = Some (k, f) \<Longrightarrow> kernels d (opname, k) = Some (Kernel f)"
  by (induction ks) (auto split: option.splits kernel.splits)

lemma redispatch_quiet:
  assumes "quiet_when_disabled d" and "tracer_dispatch_disabled w"
  shows "tracing_state (snd (redispatch d opname Tracer args w)) = tracing_state w"
proof (cases "resolve d opname [Autograd, Backend]")
  case None
  then show ?thesis by (simp add: redispatch_Tracer)
next
  case (Some kf)
  obtain k f where kf: "kf = (k, f)" by (cases kf)
  from Some kf have "k \<noteq> Tracer \<and> kernels d (opname, k) = Some (Kernel f)"
    using resolve_below by blast
  with assms have "tracing_state (snd (f args w)) = tracing_state w"
    unfolding quiet_when_disabled_def by blast
  with Some kf show ?thesis by (simp add: redispatch_Tracer)
qed

lemma guard_restores:
  "NoTracerDispatchMode body w = (r, w') \<Longrightarrow>
     tracer_dispatch_disabled w' = tracer_dispatch_disabled w"
  by (auto simp: NoTracerDispatchMode_def split: prod.splits)

lemma guard_quiet:
  assumes "quiet_when_disabled d"
    and "NoTracerDispatchMode (redispatch d opname Tracer args) w = (r, w')"
  shows "tracing_state w' = tracing_state w"
proof -
  let ?w = "w\<lparr>tracer_dispatch_disabled := True\<rparr>"
  obtain r2 w2 where run: "redispatch d opname Tracer args ?w = (r2, w2)"
    by (cases "redispatch d opname Tracer args ?w")
  have "tracing_state (snd (redispatch d opname Tracer args ?w)) = tracing_state ?w"
    using assms(1) by (rule redispatch_quiet) simp
  with run have "tracing_state w2 = tracing_state w" by simp
  with run assms(2) show ?thesis
    by (auto simp: NoTracerDispatchMode_def)
qed

lemma guard_fails:
  assumes "redispatch_fails d opname"
  shows "NoTracerDispatchMode (redispatch d opname Tracer args) w = (Inl NoKernelFound, w)"
  using assms by (simp add: NoTracerDispatchMode_def redispatch_fails_def)

lemma scope_run:
  assumes "quiet_when_disabled d"
  obtains r w2 where "NoTracerDispatchMode (redispatch d opname Tracer args) w1 = (r, w2)"
    and "tracing_state w2 = tracing_state w1"
    and "tracer_dispatch_disabled w2 = tracer_dispatch_disabled w1"
proof -
  obtain r w2 where run: "NoTracerDispatchMode (redispatch d opname Tracer args) w1 = (r, w2)"
    by (cases "NoTracerDispatchMode (redispatch d opname Tracer args) w1")
  show thesis
    using that [OF run guard_quiet [OF assms run] guard_restores [OF run]] .
qed

lemma guard_cong:
  assumes "\<forall>opname args w. tracer_dispatch_disabled w \<longrightarrow>
             redispatch d1 opname Tracer args w = redispatch d2 opname Tracer args w"
  shows "NoTracerDispatchMode (redispatch d1 op Tracer args) w
           = NoTracerDispatchMode (redispatch d2 op Tracer args) w"
  using assms by (simp add: NoTracerDispatchMode_def)

lemma schema_cong:
  "schemas d1 = schemas d2 \<Longrightarrow> findSchemaOrThrow d1 name overload = findSchemaOrThrow d2 name overload"
  by (simp add: findSchemaOrThrow_def)

lemma find_schema_name:
  "findSchemaOrThrow d name overload = Inr op \<Longrightarrow> op = name"
  by (simp add: findSchemaOrThrow_def split: if_splits)

subsection \<open>What the tracing blocks record\<close>

text \<open>
  With a live session and a bound input, \<open>detach\<close> is its tail run on the world in which
  the node has been created, given its source location and its input, and inserted.
\<close>

lemma detach_traced:
  assumes "tracing_state w = Some st" and "value_map st self = Some v"
  defines "n \<equiv> next_node (graph st)"
  defines "w1 \<equiv> w\<lparr>tracing_state := Some (insertNode n
                (snd (addInputs n ''self'' self
                  (recordSourceLocation n (snd (create aten_detach 0 st))))))\<rparr>"
  shows "detach d self w =
      bind_v (findSchemaOrThrow d ''aten::detach'' []) w1 (\<lambda>op.
          bind_r (NoTracerDispatchMode (redispatch d op Tracer [ATensor self]) w1)
            (\<lambda>result w2.
               if isTracing w2 then
                 bind_r (with_state (addOutput n result) w2) (\<lambda>_ w3. (Inr result, w3))
               else (Inr result, w2)))"
  using assms(1,2) unfolding n_def w1_def
  by (simp add: detach_def isTracing_def with_state_def create_def recordSourceLocation_def
      addInputs_def getValueTrace_def Let_def cong: if_cong)

lemma detach_recorded:
  assumes "value_map st self = Some v"
  defines "n \<equiv> next_node (graph st)"
  defines "pre \<equiv> insertNode n
                (snd (addInputs n ''self'' self
                  (recordSourceLocation n (snd (create aten_detach 0 st)))))"
  shows "block (graph pre) = block (graph st) @ [n]"
    and "nodes (graph pre) = (nodes (graph st))(n \<mapsto>
           \<lparr>kind = aten_detach, inputs = [(Some ''self'', v)], outputs = [],
            source_range = Some (current_location st)\<rparr>)"
    and "value_map pre = value_map st"
    and "warnings pre = warnings st"
  using assms(1) unfolding pre_def n_def
  by (simp_all add: create_def recordSourceLocation_def addInputs_def
      getValueTrace_def insertNode_def Let_def)

lemma detach_inplace_traced:
  assumes "tracing_state w = Some st" and "value_map st self = Some v"
  defines "n \<equiv> next_node (graph st)"
  defines "w1 \<equiv> w\<lparr>tracing_state := Some (ensureUniqueIfOutOfPlaced ''detach_'' self
              (insertNode n
                (snd (addInputs n ''self'' self
                  (recordSourceLocation n (snd (create aten_detach 0 st)))))))\<rparr>"
  shows "detach_' d self w =
      bind_v (findSchemaOrThrow d ''aten::detach_'' []) w1 (\<lambda>op.
          bind_r (NoTracerDispatchMode (redispatch d op Tracer [ATensor self]) w1)
            (\<lambda>_ w2.
               if isTracing w2 then
                 bind_r (with_state (addOutput n self) w2) (\<lambda>_ w3. (Inr self, w3))
               else (Inr self, w2)))"
  using assms(1,2) unfolding n_def w1_def
  by (simp add: detach_'_def isTracing_def with_state_def create_def recordSourceLocation_def
      addInputs_def getValueTrace_def Let_def cong: if_cong)

lemma detach_inplace_recorded:
  assumes "value_map st self = Some v"
  defines "n \<equiv> next_node (graph st)"
  defines "pre \<equiv> ensureUniqueIfOutOfPlaced ''detach_'' self (insertNode n
                (snd (addInputs n ''self'' self
                  (recordSourceLocation n (snd (create aten_detach 0 st))))))"
  shows "block (graph pre) = block (graph st) @ [n]"
    and "nodes (graph pre) = (nodes (graph st))(n \<mapsto>
           \<lparr>kind = aten_detach, inputs = [(Some ''self'', v)], outputs = [],
            source_range = Some (current_location st)\<rparr>)"
    and "value_map pre = value_map (ensureUniqueIfOutOfPlaced ''detach_'' self st)"
    and "warnings pre = warnings st"
  using assms(1) unfolding pre_def n_def
  by (simp_all add: create_def recordSourceLocation_def addInputs_def
      getValueTrace_def insertNode_def ensureUniqueIfOutOfPlaced_def Let_def cong: if_cong)

lemma copy_traced:
  assumes "tracing_state w = Some st"
    and "value_map st self = Some vself" and "value_map st src = Some vsrc"
  defines "n \<equiv> next_node (graph st)"
  defines "w1 \<equiv> w\<lparr>tracing_state := Some
      (ensureUniqueIfOutOfPlaced ''copy_ (possibly due to an assignment)'' self
        (if force_outplace st \<and> use_count w (storage self) \<le> 1
         then insertNode n (snd (addInputs n ''self'' self
                (snd (addInputs n ''src'' src (snd (create aten_expand_as 1 st))))))
         else recordSourceLocation n (snd (insert_op aten_copy_' [vself, vsrc] st))))\<rparr>"
  shows "copy_' d self src non_blocking w =
      bind_v (findSchemaOrThrow d ''aten::copy_'' []) w1 (\<lambda>op.
          bind_r (NoTracerDispatchMode
                    (redispatch d op Tracer [ATensor self, ATensor src, ABool non_blocking]) w1)
            (\<lambda>_ w2.
               if isTracing w2 then
                 bind_r (with_state (\<lambda>st. (Inr (), setOutput (NodeOutput n 0) self st)) w2)
                   (\<lambda>_ w3. (Inr self, w3))
               else (Inr self, w2)))"
  using assms(1,2,3) unfolding n_def w1_def
  by (simp add: copy_'_def isTracing_def with_state_def create_def recordSourceLocation_def
      addInputs_def getValueTrace_def insert_op_def node_output_def insertNode_def Let_def
      cong: if_cong)

lemma copy_recorded:
  fixes uc :: nat
  assumes "value_map st self = Some vself" and "value_map st src = Some vsrc"
  defines "n \<equiv> next_node (graph st)"
  defines "pre \<equiv> ensureUniqueIfOutOfPlaced ''copy_ (possibly due to an assignment)'' self
        (if force_outplace st \<and> uc \<le> 1
         then insertNode n (snd (addInputs n ''self'' self
                (snd (addInputs n ''src'' src (snd (create aten_expand_as 1 st))))))
         else recordSourceLocation n (snd (insert_op aten_copy_' [vself, vsrc] st)))"
  shows "block (graph pre) = block (graph st) @ [n]"
    and "nodes (graph pre) = (nodes (graph st))(n \<mapsto>
           (if force_outplace st \<and> uc \<le> 1
            then \<lparr>kind = aten_expand_as,
                  inputs = [(Some ''src'', vsrc), (Some ''self'', vself)],
                  outputs = [NodeOutput n 0], source_range = None\<rparr>
            else \<lparr>kind = aten_copy_', inputs = [(None, vself), (None, vsrc)],
                  outputs = [NodeOutput n 0],
                  source_range = Some (current_location st)\<rparr>))"
    and "value_map pre =
           value_map (ensureUniqueIfOutOfPlaced ''copy_ (possibly due to an assignment)'' self st)"
    and "warnings pre = warnings st"
  using assms(1,2) unfolding pre_def n_def
  by (simp_all add: create_def recordSourceLocation_def addInputs_def insert_op_def
      getValueTrace_def insertNode_def ensureUniqueIfOutOfPlaced_def Let_def cong: if_cong)

subsection \<open>Complete runs under a live session\<close>

lemma detach_run:
  assumes tr: "tracing_state w = Some st" and bd: "value_map st self = Some v"
    and q: "quiet_when_disabled d"
  shows "case detach d self w of (r, w') \<Rightarrow>
     (\<exists>st'. tracing_state w' = Some st'
        \<and> tracer_dispatch_disabled w' = tracer_dispatch_disabled w
        \<and> block (graph st') = block (graph st) @ [next_node (graph st)]
        \<and> warnings st' = warnings st
        \<and> (case r of
             Inr result \<Rightarrow>
               nodes (graph st') = (nodes (graph st))(next_node (graph st) \<mapsto>
                 \<lparr>kind = aten_detach, inputs = [(Some ''self'', v)],
                  outputs = [NodeOutput (next_node (graph st)) 0],
                  source_range = Some (current_location st)\<rparr>)
               \<and> value_map st' = (value_map st)(result \<mapsto> NodeOutput (next_node (graph st)) 0)
           | Inl e \<Rightarrow>
               nodes (graph st') = (nodes (graph st))(next_node (graph st) \<mapsto>
                 \<lparr>kind = aten_detach, inputs = [(Some ''self'', v)], outputs = [],
                  source_range = Some (current_location st)\<rparr>)
               \<and> value_map st' = value_map st))"
proof -
  let ?n = "next_node (graph st)"
  let ?w1 = "w\<lparr>tracing_state := Some (insertNode ?n
                (snd (addInputs ?n ''self'' self
                  (recordSourceLocation ?n (snd (create aten_detach 0 st))))))\<rparr>"
  note eq = detach_traced [OF tr bd, of d]
  note rec = detach_recorded [OF bd]
  show ?thesis
  proof (cases "findSchemaOrThrow d ''aten::detach'' []")
    case (Inl e)
    then show ?thesis by (simp add: eq rec)
  next
    case (Inr op)
    obtain r w2 where run:
      "NoTracerDispatchMode (redispatch d op Tracer [ATensor self]) ?w1 = (r, w2)"
      and ts: "tracing_state w2 = tracing_state ?w1"
      and fl: "tracer_dispatch_disabled w2 = tracer_dispatch_disabled ?w1"
      by (rule scope_run [OF q])
    show ?thesis
    proof (cases r)
      case (Inl e)
      with Inr run ts fl show ?thesis by (simp add: eq rec)
    next
      case r: (Inr result)
      with Inr run ts fl show ?thesis
        by (simp add: eq rec isTracing_def with_state_def addOutput_def setOutput_def Let_def)
    qed
  qed
qed

lemma detach_inplace_run:
  assumes tr: "tracing_state w = Some st" and bd: "value_map st self = Some v"
    and q: "quiet_when_disabled d"
  shows "case detach_' d self w of (r, w') \<Rightarrow>
     (\<exists>st'. tracing_state w' = Some st'
        \<and> tracer_dispatch_disabled w' = tracer_dispatch_disabled w
        \<and> block (graph st') = block (graph st) @ [next_node (graph st)]
        \<and> warnings st' = warnings st
        \<and> (case r of
             Inr result \<Rightarrow>
               result = self
               \<and> nodes (graph st') = (nodes (graph st))(next_node (graph st) \<mapsto>
                 \<lparr>kind = aten_detach, inputs = [(Some ''self'', v)],
                  outputs = [NodeOutput (next_node (graph st)) 0],
                  source_range = Some (current_location st)\<rparr>)
               \<and> value_map st' =
                   (value_map (ensureUniqueIfOutOfPlaced ''detach_'' self st))
                     (self \<mapsto> NodeOutput (next_node (graph st)) 0)
           | Inl e \<Rightarrow>
               nodes (graph st') = (nodes (graph st))(next_node (graph st) \<mapsto>
                 \<lparr>kind = aten_detach, inputs = [(Some ''self'', v)], outputs = [],
                  source_range = Some (current_location st)\<rparr>)
               \<and> value_map st' = value_map (ensureUniqueIfOutOfPlaced ''detach_'' self st)))"
proof -
  let ?n = "next_node (graph st)"
  let ?w1 = "w\<lparr>tracing_state := Some (ensureUniqueIfOutOfPlaced ''detach_'' self
              (insertNode ?n
                (snd (addInputs ?n ''self'' self
                  (recordSourceLocation ?n (snd (create aten_detach 0 st)))))))\<rparr>"
  note eq = detach_inplace_traced [OF tr bd, of d]
  note rec = detach_inplace_recorded [OF bd]
  show ?thesis
  proof (cases "findSchemaOrThrow d ''aten::detach_'' []")
    case (Inl e)
    then show ?thesis by (simp add: eq rec)
  next
    case (Inr op)
    obtain r w2 where run:
      "NoTracerDispatchMode (redispatch d op Tracer [ATensor self]) ?w1 = (r, w2)"
      and ts: "tracing_state w2 = tracing_state ?w1"
      and fl: "tracer_dispatch_disabled w2 = tracer_dispatch_disabled ?w1"
      by (rule scope_run [OF q])
    show ?thesis
    proof (cases r)
      case (Inl e)
      with Inr run ts fl show ?thesis by (simp add: eq rec)
    next
      case r: (Inr result)
      with Inr run ts fl show ?thesis
        by (simp add: eq rec isTracing_def with_state_def addOutput_def setOutput_def Let_def)
    qed
  qed
qed

lemma copy_run:
  assumes tr: "tracing_state w = Some st"
    and bd: "value_map st self = Some vself" "value_map st src = Some vsrc"
    and q: "quiet_when_disabled d"
  shows "case copy_' d self src non_blocking w of (r, w') \<Rightarrow>
     (\<exists>st'. tracing_state w' = Some st'
        \<and> tracer_dispatch_disabled w' = tracer_dispatch_disabled w
        \<and> block (graph st') = block (graph st) @ [next_node (graph st)]
        \<and> warnings st' = warnings st
        \<and> nodes (graph st') = (nodes (graph st))(next_node (graph st) \<mapsto>
           (if force_outplace st \<and> use_count w (storage self) \<le> 1
            then \<lparr>kind = aten_expand_as,
                  inputs = [(Some ''src'', vsrc), (Some ''self'', vself)],
                  outputs = [NodeOutput (next_node (graph st)) 0], source_range = None\<rparr>
            else \<lparr>kind = aten_copy_', inputs = [(None, vself), (None, vsrc)],
                  outputs = [NodeOutput (next_node (graph st)) 0],
                  source_range = Some (current_location st)\<rparr>))
        \<and> (case r of
             Inr result \<Rightarrow>
               result = self
               \<and> value_map st' =
                   (value_map (ensureUniqueIfOutOfPlaced
                      ''copy_ (possibly due to an assignment)'' self st))
                     (self \<mapsto> NodeOutput (next_node (graph st)) 0)
           | Inl e \<Rightarrow>
               value_map st' = value_map (ensureUniqueIfOutOfPlaced
                      ''copy_ (possibly due to an assignment)'' self st)))"
proof -
  let ?args = "[ATensor self, ATensor src, ABool non_blocking]"
  define n where "n = next_node (graph st)"
  define pre where "pre =
      ensureUniqueIfOutOfPlaced ''copy_ (possibly due to an assignment)'' self
        (if force_outplace st \<and> use_count w (storage self) \<le> 1
         then insertNode n (snd (addInputs n ''self'' self
                (snd (addInputs n ''src'' src (snd (create aten_expand_as 1 st))))))
         else recordSourceLocation n (snd (insert_op aten_copy_' [vself, vsrc] st)))"
  let ?w1 = "w\<lparr>tracing_state := Some pre\<rparr>"
  note eq = copy_traced [OF tr bd, of d non_blocking, folded n_def, folded pre_def]
  note rec = copy_recorded [OF bd, of "use_count w (storage self)", folded n_def,
      folded pre_def]
  show ?thesis
  proof (cases "findSchemaOrThrow d ''aten::copy_'' []")
    case (Inl e)
    then show ?thesis unfolding eq by (simp add: rec n_def)
  next
    case (Inr op)
    obtain r w2 where run:
      "NoTracerDispatchMode (redispatch d op Tracer ?args) ?w1 = (r, w2)"
      and ts: "tracing_state w2 = tracing_state ?w1"
      and fl: "tracer_dispatch_disabled w2 = tracer_dispatch_disabled ?w1"
      by (rule scope_run [OF q])
    show ?thesis
    proof (cases r)
      case (Inl e)
      with Inr run ts fl show ?thesis unfolding eq by (simp add: rec n_def)
    next
      case r: (Inr result)
      with Inr run ts fl show ?thesis unfolding eq
        by (simp add: rec n_def isTracing_def with_state_def setOutput_def)
    qed
  qed
qed

subsection \<open>Runs without a session\<close>

lemma guard_transparent:
  assumes "sessionless_kernels d" and "tracing_state w = None"
  shows "NoTracerDispatchMode (redispatch d opname Tracer args) w
           = redispatch d opname Tracer args w"
    and "tracing_state (snd (redispatch d opname Tracer args w)) = None"
proof -
  show "NoTracerDispatchMode (redispatch d opname Tracer args) w
           = redispatch d opname Tracer args w"
  proof (cases "resolve d opname [Autograd, Backend]")
    case None
    then show ?thesis
      by (simp add: NoTracerDispatchMode_def redispatch_Tracer)
  next
    case (Some kf)
    obtain k f where kf: "kf = (k, f)" by (cases kf)
    from Some kf have reg: "k \<noteq> Tracer \<and> kernels d (opname, k) = Some (Kernel f)"
      using resolve_below by blast
    have blind: "f args (w\<lparr>tracer_dispatch_disabled := b\<rparr>)
                = (fst (f args w), (snd (f args w))\<lparr>tracer_dispatch_disabled := b\<rparr>)" for b
      using assms reg unfolding sessionless_kernels_def by blast
    from blind [of "tracer_dispatch_disabled w"]
    have keep: "(snd (f args w))\<lparr>tracer_dispatch_disabled := tracer_dispatch_disabled w\<rparr>
                  = snd (f args w)"
      by (simp add: prod_eq_iff)
    have "NoTracerDispatchMode (redispatch d opname Tracer args) w
            = (fst (f args w), snd (f args w))"
      using Some kf by (simp add: NoTracerDispatchMode_def redispatch_Tracer blind keep)
    with Some kf show ?thesis
      by (simp add: redispatch_Tracer)
  qed
  show "tracing_state (snd (redispatch d opname Tracer args w)) = None"
  proof (cases "resolve d opname [Autograd, Backend]")
    case None
    then show ?thesis using assms(2) by (simp add: redispatch_Tracer)
  next
    case (Some kf)
    obtain k f where kf: "kf = (k, f)" by (cases kf)
    from Some kf have reg: "k \<noteq> Tracer \<and> kernels d (opname, k) = Some (Kernel f)"
      using resolve_below by blast
    have "tracing_state (snd (f args w)) = None"
      using assms reg unfolding sessionless_kernels_def by blast
    with Some kf show ?thesis by (simp add: redispatch_Tracer)
  qed
qed

lemma redispatch_returns_self:
  assumes "returns_self d opname"
    and "redispatch d opname Tracer (ATensor self # rest) w = (Inr r, w')"
  shows "r = self"
proof (cases "resolve d opname [Autograd, Backend]")
  case None
  with assms(2) show ?thesis by (simp add: redispatch_Tracer)
next
  case (Some kf)
  obtain k f where kf: "kf = (k, f)" by (cases kf)
  from Some kf have reg: "k \<noteq> Tracer \<and> kernels d (opname, k) = Some (Kernel f)"
    using resolve_below by blast
  from Some kf assms(2) have "f (ATensor self # rest) w = (Inr r, w')"
    by (simp add: redispatch_Tracer)
  with assms(1) reg show ?thesis
    unfolding returns_self_def by blast
qed

text \<open>
  Without a session an in-place interceptor is the direct call, its result replaced by
  the destination; a kernel that returns its first argument makes the two equal.
\<close>

lemma inplace_passthrough:
  assumes none: "tracing_state w = None" and sl: "sessionless_kernels d"
    and rs: "returns_self d name"
  shows "bind_v (findSchemaOrThrow d name []) w (\<lambda>op.
           bind_r (NoTracerDispatchMode (redispatch d op Tracer (ATensor self # rest)) w)
             (\<lambda>_ w2. (Inr self, w2)))
         = invoke_directly d name (ATensor self # rest) w"
proof (cases "findSchemaOrThrow d name []")
  case (Inl e)
  then show ?thesis by (simp add: invoke_directly_def)
next
  case (Inr op)
  then have op: "op = name" by (rule find_schema_name)
  obtain r w2 where run: "redispatch d name Tracer (ATensor self # rest) w = (r, w2)"
    by (cases "redispatch d name Tracer (ATensor self # rest) w")
  show ?thesis
  proof (cases r)
    case (Inl e)
    with Inr op run show ?thesis
      by (simp add: invoke_directly_def guard_transparent(1) [OF sl none])
  next
    case r: (Inr x)
    with run have "x = self" using redispatch_returns_self [OF rs] by blast
    with Inr op run r show ?thesis
      by (simp add: invoke_directly_def guard_transparent(1) [OF sl none])
  qed
qed

lemma untraced_epilogue:
  assumes none: "tracing_state w = None" and sl: "sessionless_kernels d"
  shows "bind_r (NoTracerDispatchMode (redispatch d op Tracer args) w)
           (\<lambda>x w2. if isTracing w2 then X x w2 else Y x w2)
         = bind_r (NoTracerDispatchMode (redispatch d op Tracer args) w) Y"
proof -
  obtain r w2 where run: "redispatch d op Tracer args w = (r, w2)"
    by (cases "redispatch d op Tracer args w")
  have w2: "tracing_state w2 = None"
    using guard_transparent(2) [OF sl none, of op args] run by simp
  with run show ?thesis
    by (cases r) (simp_all add: guard_transparent(1) [OF sl none] isTracing_def)
qed

subsection \<open>The scope of the tracer-disabled mode\<close>

lemma with_state_flag:
  "tracer_dispatch_disabled (snd (with_state m w)) = tracer_dispatch_disabled w"
  by (simp add: with_state_def split: option.splits prod.splits)

lemma tail_flag:
  assumes "\<And>x w2. tracer_dispatch_disabled (snd (K x w2)) = tracer_dispatch_disabled w2"
  shows "tracer_dispatch_disabled
           (snd (bind_v F w1 (\<lambda>op. bind_r (NoTracerDispatchMode (R op) w1) K)))
         = tracer_dispatch_disabled w1"
proof (cases F)
  case (Inl e)
  then show ?thesis by simp
next
  case (Inr op)
  obtain r w2 where run: "NoTracerDispatchMode (R op) w1 = (r, w2)"
    by (cases "NoTracerDispatchMode (R op) w1")
  from guard_restores [OF run] Inr run assms show ?thesis
    by (cases r) simp_all
qed

lemma head_flag:
  assumes "tracer_dispatch_disabled (snd P) = tracer_dispatch_disabled w"
    and "\<And>x w1. tracer_dispatch_disabled (snd (T x w1)) = tracer_dispatch_disabled w1"
  shows "tracer_dispatch_disabled (snd (bind_r P T)) = tracer_dispatch_disabled w"
proof -
  obtain r w1 where p: "P = (r, w1)" by (cases P)
  with assms show ?thesis by (cases r) simp_all
qed

lemma epilogue_flag:
  "tracer_dispatch_disabled
     (snd (if isTracing w2 then
             (case node of
                None \<Rightarrow> (Inl NullPointer, w2)
              | Some n \<Rightarrow> bind_r (with_state (m n) w2) (\<lambda>_ w3. (Inr x, w3)))
           else (Inr x, w2)))
   = tracer_dispatch_disabled w2"
proof -
  have "tracer_dispatch_disabled (snd (bind_r (with_state (m n) w2) (\<lambda>_ w3. (Inr x, w3))))
          = tracer_dispatch_disabled w2" for n
    by (rule head_flag [OF with_state_flag]) simp
  then show ?thesis
    by (simp split: option.splits)
qed

lemma interceptors_restore_mode:
  "tracer_dispatch_disabled (snd (copy_' d self src non_blocking w)) = tracer_dispatch_disabled w"
  "tracer_dispatch_disabled (snd (resize_' d self size' mf w)) = tracer_dispatch_disabled w"
  "tracer_dispatch_disabled (snd (resize_as_' d self the_template mf w))
     = tracer_dispatch_disabled w"
  "tracer_dispatch_disabled (snd (detach d self w)) = tracer_dispatch_disabled w"
  "tracer_dispatch_disabled (snd (detach_' d self w)) = tracer_dispatch_disabled w"
proof -
  show "tracer_dispatch_disabled (snd (copy_' d self src non_blocking w))
          = tracer_dispatch_disabled w"
    unfolding copy_'_def
    by (rule head_flag) (simp_all add: with_state_flag tail_flag epilogue_flag)
  show "tracer_dispatch_disabled (snd (resize_' d self size' mf w)) = tracer_dispatch_disabled w"
    unfolding resize_'_def
    by (rule head_flag) (simp_all add: with_state_flag tail_flag popIntArrayRef_def)
  show "tracer_dispatch_disabled (snd (resize_as_' d self the_template mf w))
          = tracer_dispatch_disabled w"
    unfolding resize_as_'_def
    by (rule head_flag) (simp_all add: with_state_flag tail_flag)
  show "tracer_dispatch_disabled (snd (detach d self w)) = tracer_dispatch_disabled w"
    unfolding detach_def
    by (rule head_flag) (simp_all add: with_state_flag tail_flag epilogue_flag)
  show "tracer_dispatch_disabled (snd (detach_' d self w)) = tracer_dispatch_disabled w"
    unfolding detach_'_def
    by (rule head_flag) (simp_all add: with_state_flag tail_flag epilogue_flag)
qed

text \<open>
  The tail every interceptor shares: the lookup of the operator, the redispatch inside the
  scope of the guard, and a step \<open>K\<close> on the tracer. When the operator is known, the
  redispatch is made in the world the tail starts from with the tracer-disabled mode on.
\<close>

lemma snd_bind_return:
  "snd (bind_r P (\<lambda>_ w3. (Inr x, w3))) = snd P"
  by (cases P) (auto simp: bind_r_def split: sum.splits)

lemma with_state_frame:
  "heap (snd (with_state m w)) = heap w"
  "use_count (snd (with_state m w)) = use_count w"
  by (simp_all add: with_state_def split: option.splits prod.splits)

lemma tail_runs_kernel:
  assumes sch: "(name, []) \<in> set (schemas d)"
    and frame: "heap w1 = heap w" "use_count w1 = use_count w"
      "tracer_dispatch_disabled w1 = tracer_dispatch_disabled w"
    and Kh: "\<And>x w2. heap (snd (K x w2)) = heap w2"
    and Ku: "\<And>x w2. use_count (snd (K x w2)) = use_count w2"
    and Kf: "\<And>x w2. tracer_dispatch_disabled (snd (K x w2)) = tracer_dispatch_disabled w2"
    and Kr: "\<And>x w2. tracing_state w2 = tracing_state w1 \<Longrightarrow> fst (K x w2) = Inr (ret x)"
  shows "runs_kernel_in_scope d name args w
           (bind_v (findSchemaOrThrow d name []) w1 (\<lambda>op.
              bind_r (NoTracerDispatchMode (redispatch d op Tracer args) w1) K)) ret"
proof -
  define wd where "wd = w1\<lparr>tracer_dispatch_disabled := True\<rparr>"
  obtain r w2 where run: "redispatch d name Tracer args wd = (r, w2)"
    by (cases "redispatch d name Tracer args wd")
  define wr where "wr = w2\<lparr>tracer_dispatch_disabled := tracer_dispatch_disabled w1\<rparr>"
  define out where "out = bind_v (findSchemaOrThrow d name []) w1 (\<lambda>op.
              bind_r (NoTracerDispatchMode (redispatch d op Tracer args) w1) K)"
  have out: "out = (case r of Inl e \<Rightarrow> (Inl e, wr) | Inr x \<Rightarrow> K x wr)"
    using sch run
    by (simp add: out_def wd_def wr_def findSchemaOrThrow_def NoTracerDispatchMode_def
        split: sum.splits)
  have wd: "tracer_dispatch_disabled wd" "heap wd = heap w" "use_count wd = use_count w"
    "tracing_state wd = tracing_state w1"
    using frame by (simp_all add: wd_def)
  have wr: "heap wr = heap w2" "use_count wr = use_count w2"
    "tracer_dispatch_disabled wr = tracer_dispatch_disabled w"
    "tracing_state wr = tracing_state w2"
    using frame by (simp_all add: wr_def)
  have o1: "heap (snd out) = heap w2" "use_count (snd out) = use_count w2"
    "tracer_dispatch_disabled (snd out) = tracer_dispatch_disabled w"
    by (cases r; simp add: out Kh Ku Kf wr)+
  have o2: "fst out = Inl e" if "r = Inl e" for e
    using that by (simp add: out)
  have o3: "fst out = Inr (ret x)" if "r = Inr x" and "tracing_state w2 = tracing_state wd" for x
  proof -
    from that(2) have "tracing_state wr = tracing_state w1"
      by (simp add: wr wd)
    then have "fst (K x wr) = Inr (ret x)" by (rule Kr)
    with that(1) show ?thesis by (simp add: out)
  qed
  have "runs_kernel_in_scope d name args w out ret"
    unfolding runs_kernel_in_scope_def
    using wd(1-3) run o1 o2 o3 by blast
  then show ?thesis by (simp add: out_def)
qed

text \<open>Each interceptor, on a call that reaches its redispatch, is such a tail.\<close>

lemma copy_runs_kernel:
  assumes sch: "(''aten::copy_'', []) \<in> set (schemas d)"
    and reach: "tracing_state w = None
      \<or> (\<exists>st vself vsrc. tracing_state w = Some st
            \<and> value_map st self = Some vself \<and> value_map st src = Some vsrc)"
  shows "runs_kernel_in_scope d ''aten::copy_''
           [ATensor self, ATensor src, ABool non_blocking] w
           (copy_' d self src non_blocking w) (\<lambda>_. self)"
proof (cases "tracing_state w")
  case None
  have eq: "copy_' d self src non_blocking w =
      bind_v (findSchemaOrThrow d ''aten::copy_'' []) w (\<lambda>op.
        bind_r (NoTracerDispatchMode
                  (redispatch d op Tracer [ATensor self, ATensor src, ABool non_blocking]) w)
          (\<lambda>_ w2. if isTracing w2 then (Inl NullPointer, w2) else (Inr self, w2)))"
    using None by (simp add: copy_'_def isTracing_def cong: if_cong)
  show ?thesis
    unfolding eq
    by (rule tail_runs_kernel [OF sch]) (simp_all add: isTracing_def None)
next
  case (Some st)
  with reach obtain vself vsrc where bd: "value_map st self = Some vself"
    "value_map st src = Some vsrc"
    by auto
  define n where "n = next_node (graph st)"
  define pre where "pre =
      ensureUniqueIfOutOfPlaced ''copy_ (possibly due to an assignment)'' self
        (if force_outplace st \<and> use_count w (storage self) \<le> 1
         then insertNode n (snd (addInputs n ''self'' self
                (snd (addInputs n ''src'' src (snd (create aten_expand_as 1 st))))))
         else recordSourceLocation n (snd (insert_op aten_copy_' [vself, vsrc] st)))"
  note eq = copy_traced [OF Some bd, of d non_blocking, folded n_def, folded pre_def]
  show ?thesis
    unfolding eq
    by (rule tail_runs_kernel [OF sch])
      (simp_all add: snd_bind_return with_state_frame with_state_flag,
        simp add: isTracing_def with_state_def)
qed

lemma resize_runs_kernel:
  assumes sch: "(''aten::resize_'', []) \<in> set (schemas d)"
    and reach: "tracing_state w = None \<or> ''size'' \<in> set (int_array_stash w)"
  shows "runs_kernel_in_scope d ''aten::resize_''
           [ATensor self, AIntList size', AMemoryFormat mf] w
           (resize_' d self size' mf w) (\<lambda>_. self)"
proof (cases "tracing_state w")
  case None
  have eq: "resize_' d self size' mf w =
      bind_v (findSchemaOrThrow d ''aten::resize_'' []) w (\<lambda>op.
        bind_r (NoTracerDispatchMode (redispatch d op Tracer
                  [ATensor self, AIntList size', AMemoryFormat mf]) w)
          (\<lambda>_ w2. (Inr self, w2)))"
    using None by (simp add: resize_'_def isTracing_def)
  show ?thesis
    unfolding eq by (rule tail_runs_kernel [OF sch]) simp_all
next
  case (Some st)
  with reach have stashed: "''size'' \<in> set (int_array_stash w)" by simp
  define w1 where "w1 = w\<lparr>int_array_stash := removeAll ''size'' (int_array_stash w),
      tracing_state := Some (delValueTrace self (warn ''resize_'' WARN_RESIZE st))\<rparr>"
  have eq: "resize_' d self size' mf w =
      bind_v (findSchemaOrThrow d ''aten::resize_'' []) w1 (\<lambda>op.
        bind_r (NoTracerDispatchMode (redispatch d op Tracer
                  [ATensor self, AIntList size', AMemoryFormat mf]) w1)
          (\<lambda>_ w2. (Inr self, w2)))"
    using Some stashed
    by (simp add: resize_'_def isTracing_def with_state_def popIntArrayRef_def w1_def)
  show ?thesis
    unfolding eq by (rule tail_runs_kernel [OF sch]) (simp_all add: w1_def)
qed

lemma resize_as_runs_kernel:
  assumes sch: "(''aten::resize_as_'', []) \<in> set (schemas d)"
  shows "runs_kernel_in_scope d ''aten::resize_as_''
           [ATensor self, ATensor the_template, AMemoryFormat mf] w
           (resize_as_' d self the_template mf w) (\<lambda>_. self)"
proof (cases "tracing_state w")
  case None
  have eq: "resize_as_' d self the_template mf w =
      bind_v (findSchemaOrThrow d ''aten::resize_as_'' []) w (\<lambda>op.
        bind_r (NoTracerDispatchMode (redispatch d op Tracer
                  [ATensor self, ATensor the_template, AMemoryFormat mf]) w)
          (\<lambda>_ w2. (Inr self, w2)))"
    using None by (simp add: resize_as_'_def isTracing_def)
  show ?thesis
    unfolding eq by (rule tail_runs_kernel [OF sch]) simp_all
next
  case (Some st)
  define w1 where "w1 = w\<lparr>tracing_state :=
      Some (delValueTrace self (warn ''resize_as_'' WARN_RESIZE st))\<rparr>"
  have eq: "resize_as_' d self the_template mf w =
      bind_v (findSchemaOrThrow d ''aten::resize_as_'' []) w1 (\<lambda>op.
        bind_r (NoTracerDispatchMode (redispatch d op Tracer
                  [ATensor self, ATensor the_template, AMemoryFormat mf]) w1)
          (\<lambda>_ w2. (Inr self, w2)))"
    using Some
    by (simp add: resize_as_'_def isTracing_def with_state_def w1_def)
  show ?thesis
    unfolding eq by (rule tail_runs_kernel [OF sch]) (simp_all add: w1_def)
qed

lemma detach_runs_kernel:
  assumes sch: "(''aten::detach'', []) \<in> set (schemas d)"
    and reach: "tracing_state w = None
      \<or> (\<exists>st v. tracing_state w = Some st \<and> value_map st self = Some v)"
  shows "runs_kernel_in_scope d ''aten::detach'' [ATensor self] w (detach d self w) (\<lambda>x. x)"
proof (cases "tracing_state w")
  case None
  have eq: "detach d self w =
      bind_v (findSchemaOrThrow d ''aten::detach'' []) w (\<lambda>op.
        bind_r (NoTracerDispatchMode (redispatch d op Tracer [ATensor self]) w)
          (\<lambda>result w2. if isTracing w2 then (Inl NullPointer, w2) else (Inr result, w2)))"
    using None by (simp add: detach_def isTracing_def cong: if_cong)
  show ?thesis
    unfolding eq
    by (rule tail_runs_kernel [OF sch]) (simp_all add: isTracing_def None)
next
  case (Some st)
  with reach obtain v where bd: "value_map st self = Some v" by auto
  define n where "n = next_node (graph st)"
  define pre where "pre = insertNode n
                (snd (addInputs n ''self'' self
                  (recordSourceLocation n (snd (create aten_detach 0 st)))))"
  note eq = detach_traced [OF Some bd, of d, folded n_def, folded pre_def]
  note rec = detach_recorded [OF bd, folded n_def, folded pre_def]
  show ?thesis
    unfolding eq
    by (rule tail_runs_kernel [OF sch])
      (simp_all add: snd_bind_return with_state_frame with_state_flag,
        simp add: isTracing_def with_state_def addOutput_def rec Let_def)
qed

lemma detach_inplace_runs_kernel:
  assumes sch: "(''aten::detach_'', []) \<in> set (schemas d)"
    and reach: "tracing_state w = None
      \<or> (\<exists>st v. tracing_state w = Some st \<and> value_map st self = Some v)"
  shows "runs_kernel_in_scope d ''aten::detach_'' [ATensor self] w (detach_' d self w)
           (\<lambda>_. self)"
proof (cases "tracing_state w")
  case None
  have eq: "detach_' d self w =
      bind_v (findSchemaOrThrow d ''aten::detach_'' []) w (\<lambda>op.
        bind_r (NoTracerDispatchMode (redispatch d op Tracer [ATensor self]) w)
          (\<lambda>_ w2. if isTracing w2 then (Inl NullPointer, w2) else (Inr self, w2)))"
    using None by (simp add: detach_'_def isTracing_def cong: if_cong)
  show ?thesis
    unfolding eq
    by (rule tail_runs_kernel [OF sch]) (simp_all add: isTracing_def None)
next
  case (Some st)
  with reach obtain v where bd: "value_map st self = Some v" by auto
  define n where "n = next_node (graph st)"
  define pre where "pre = ensureUniqueIfOutOfPlaced ''detach_'' self (insertNode n
                (snd (addInputs n ''self'' self
                  (recordSourceLocation n (snd (create aten_detach 0 st))))))"
  note eq = detach_inplace_traced [OF Some bd, of d, folded n_def, folded pre_def]
  note rec = detach_inplace_recorded [OF bd, folded n_def, folded pre_def]
  show ?thesis
    unfolding eq
    by (rule tail_runs_kernel [OF sch])
      (simp_all add: snd_bind_return with_state_frame with_state_flag,
        simp add: isTracing_def with_state_def addOutput_def rec Let_def)
qed

subsection \<open>The registration block\<close>

lemma impl_Inr:
  "impl name e m = Inr m' \<longleftrightarrow>
     kernels m (''aten::'' @ name, Tracer) = None
     \<and> m' = m\<lparr>kernels := (kernels m)((''aten::'' @ name, Tracer) \<mapsto> e)\<rparr>"
  by (auto simp: impl_def register_def split: option.splits)

lemma impl_all_below:
  "impl_all es d = Inr m \<Longrightarrow> k \<noteq> Tracer \<Longrightarrow> kernels m (opname, k) = kernels d (opname, k)"
proof (induction es arbitrary: d)
  case Nil
  then show ?case by simp
next
  case (Cons ne es)
  obtain name e where ne: "ne = (name, e)" by (cases ne)
  from Cons.prems(1) ne obtain d' where d': "impl name e d = Inr d'" "impl_all es d' = Inr m"
    by (auto split: sum.splits)
  from d'(1) have "kernels d' (opname, k) = kernels d (opname, k)"
    using Cons.prems(2) by (auto simp: impl_Inr)
  with Cons.IH [OF d'(2) Cons.prems(2)] show ?case by simp
qed

lemma impl_all_keeps:
  "impl_all es d = Inr m \<Longrightarrow> kernels d key = Some e \<Longrightarrow> kernels m key = Some e"
proof (induction es arbitrary: d)
  case Nil
  then show ?case by simp
next
  case (Cons ne es)
  obtain name e' where ne: "ne = (name, e')" by (cases ne)
  from Cons.prems(1) ne obtain d' where d': "impl name e' d = Inr d'" "impl_all es d' = Inr m"
    by (auto split: sum.splits)
  from d'(1) Cons.prems(2) have "kernels d' key = Some e"
    by (auto simp: impl_Inr)
  with Cons.IH [OF d'(2)] show ?case by simp
qed

lemma impl_all_registers:
  "impl_all es d = Inr m \<Longrightarrow> (name, e) \<in> set es \<Longrightarrow>
     kernels m (''aten::'' @ name, Tracer) = Some e"
proof (induction es arbitrary: d)
  case Nil
  then show ?case by simp
next
  case (Cons ne es)
  obtain name' e' where ne: "ne = (name', e')" by (cases ne)
  from Cons.prems(1) ne obtain d' where d': "impl name' e' d = Inr d'" "impl_all es d' = Inr m"
    by (auto split: sum.splits)
  show ?case
  proof (cases "(name, e) = (name', e')")
    case True
    with d'(1) have "kernels d' (''aten::'' @ name, Tracer) = Some e"
      by (auto simp: impl_Inr)
    with impl_all_keeps [OF d'(2)] show ?thesis by simp
  next
    case False
    with Cons.prems(2) ne have "(name, e) \<in> set es" by auto
    with Cons.IH [OF d'(2)] show ?thesis by simp
  qed
qed

lemma impl_all_succeeds:
  "distinct (map fst es) \<Longrightarrow>
   \<forall>name \<in> set (map fst es). kernels d (''aten::'' @ name, Tracer) = None \<Longrightarrow>
   \<exists>m. impl_all es d = Inr m"
proof (induction es arbitrary: d)
  case Nil
  then show ?case by simp
next
  case (Cons ne es)
  obtain name e where ne: "ne = (name, e)" by (cases ne)
  let ?d' = "d\<lparr>kernels := (kernels d)((''aten::'' @ name, Tracer) \<mapsto> e)\<rparr>"
  from Cons.prems(2) ne have step: "impl name e d = Inr ?d'"
    by (simp add: impl_Inr)
  from Cons.prems ne have "distinct (map fst es)"
    and "\<forall>n \<in> set (map fst es). kernels ?d' (''aten::'' @ n, Tracer) = None"
    by auto
  from Cons.IH [OF this] obtain m where "impl_all es ?d' = Inr m" by blast
  with step ne show ?case by simp
qed

lemma tracer_impls_names:
  "map fst (tracer_impls d) =
     [''resize_'', ''resize_as_'', ''detach'', ''detach_'', ''copy_'', ''backward'', ''set_data'',
      ''data'', ''is_leaf'', ''output_nr'', ''_version'', ''requires_grad_'', ''retain_grad'']"
  by (simp add: tracer_impls_def)

lemma fallthrough_ops_eq:
  "fallthrough_ops d =
     [''backward'', ''set_data'', ''data'', ''is_leaf'', ''output_nr'', ''_version'',
      ''requires_grad_'', ''retain_grad'']"
  by (simp add: fallthrough_ops_def tracer_impls_def)

lemma interceptor_ops_eq:
  "interceptor_ops d = [''resize_'', ''resize_as_'', ''detach'', ''detach_'', ''copy_'']"
  by (simp add: interceptor_ops_def tracer_impls_def)

lemma fallthrough_entry:
  "name \<in> set (fallthrough_ops d) \<Longrightarrow> (name, Fallthrough) \<in> set (tracer_impls d)"
  by (auto simp: fallthrough_ops_def elim: is_fallthrough.elims)

lemma interceptor_entry:
  "name \<in> set (interceptor_ops d) \<Longrightarrow> \<exists>e. (name, e) \<in> set (tracer_impls d)"
  by (auto simp: interceptor_ops_def)

lemma resolve_skips_fallthrough:
  assumes "kernels m (opname, Tracer) = Some Fallthrough"
    and "\<And>k. k \<noteq> Tracer \<Longrightarrow> kernels m (opname, k) = kernels d (opname, k)"
  shows "resolve m opname ks = resolve d opname (removeAll Tracer ks)"
  using assms by (induction ks) (auto split: option.splits kernel.splits)

lemma candidates_without_Tracer:
  "candidates (removeAll Tracer active) w = removeAll Tracer (candidates active w)"
  by (auto simp: candidates_def keys_by_priority_def)

text \<open>
  Once the block has run, a call to an operator it declares fallthrough is the call with
  the tracer tag left out, made on the dispatcher the block started from.
\<close>

lemma fallthrough_transparent:
  assumes m: "TORCH_LIBRARY_IMPL_aten_Tracer d = Inr m"
    and ft: "name \<in> set (fallthrough_ops d)"
  shows "dispatch m (''aten::'' @ name) active args w
           = dispatch d (''aten::'' @ name) (removeAll Tracer active) args w"
proof -
  from ft have "(name, Fallthrough) \<in> set (tracer_impls d)"
    by (rule fallthrough_entry)
  with m have reg: "kernels m (''aten::'' @ name, Tracer) = Some Fallthrough"
    unfolding TORCH_LIBRARY_IMPL_aten_Tracer_def by (rule impl_all_registers)
  have below: "kernels m (''aten::'' @ name, k) = kernels d (''aten::'' @ name, k)"
    if "k \<noteq> Tracer" for k
    using m that unfolding TORCH_LIBRARY_IMPL_aten_Tracer_def by (rule impl_all_below)
  have r: "resolve m (''aten::'' @ name) (candidates active w)
          = resolve d (''aten::'' @ name) (removeAll Tracer (candidates active w))"
    using reg below by (rule resolve_skips_fallthrough)
  show ?thesis
    unfolding dispatch_def candidates_without_Tracer r by (rule refl)
qed

text \<open>The block registers its thirteen entries on a registry with no tracer kernel.\<close>

lemma block_succeeds:
  assumes "\<And>opname. kernels d (opname, Tracer) = None"
  shows "\<exists>m. TORCH_LIBRARY_IMPL_aten_Tracer d = Inr m"
proof -
  have "distinct (map fst (tracer_impls d))"
    by (simp add: tracer_impls_names)
  moreover have "\<forall>name \<in> set (map fst (tracer_impls d)).
      kernels d (''aten::'' @ name, Tracer) = None"
    using assms by blast
  ultimately show ?thesis
    unfolding TORCH_LIBRARY_IMPL_aten_Tracer_def by (intro impl_all_succeeds)
qed

text \<open>
  Once the block has run, a call to detach that carries the tracer tag outside the
  tracer-disabled mode reaches the interceptor.
\<close>

lemma dispatch_reaches_interceptor:
  assumes "TORCH_LIBRARY_IMPL_aten_Tracer d = Inr m"
    and "Tracer \<in> set active" and "\<not> tracer_dispatch_disabled w"
  shows "dispatch m (''aten::'' @ ''detach'') active [ATensor self] w = detach d self w"
proof -
  have "(''detach'', Kernel (call_detach d)) \<in> set (tracer_impls d)"
    by (simp add: tracer_impls_def)
  with assms(1) have reg: "kernels m (''aten::'' @ ''detach'', Tracer) = Some (Kernel (call_detach d))"
    unfolding TORCH_LIBRARY_IMPL_aten_Tracer_def by (rule impl_all_registers)
  from assms(2,3) obtain ks where ks: "candidates active w = Tracer # ks"
    by (auto simp: candidates_def keys_by_priority_def)
  have "resolve m (''aten::'' @ ''detach'') (candidates active w) = Some (Tracer, call_detach d)"
    unfolding ks using reg by (simp del: append.simps)
  then show ?thesis
    unfolding dispatch_def by (simp add: call_detach_def del: append.simps)
qed

subsection \<open>The example dispatchers and worlds\<close>

lemma d_real_kernels:
  "kernels d_real (opname, k) = Some (Kernel f) \<Longrightarrow>
     k = Backend \<and> (f = backend_inplace \<or> f = backend_detach)"
  by (auto simp: d_real_def split: if_splits)

lemma backend_keeps_session:
  "tracing_state (snd (backend_inplace args w)) = tracing_state w"
  "tracing_state (snd (backend_detach args w)) = tracing_state w"
  by (auto simp: backend_inplace_def backend_detach_def split: list.splits arg.splits)

lemma backend_mode_blind:
  "backend_inplace args (w\<lparr>tracer_dispatch_disabled := b\<rparr>)
     = (fst (backend_inplace args w),
        (snd (backend_inplace args w))\<lparr>tracer_dispatch_disabled := b\<rparr>)"
  "backend_detach args (w\<lparr>tracer_dispatch_disabled := b\<rparr>)
     = (fst (backend_detach args w),
        (snd (backend_detach args w))\<lparr>tracer_dispatch_disabled := b\<rparr>)"
  by (simp_all add: backend_inplace_def backend_detach_def split: list.splits arg.splits)

lemma d_real_quiet: "quiet_when_disabled d_real"
  unfolding quiet_when_disabled_def
  using d_real_kernels backend_keeps_session by blast

lemma d_real_sessionless: "sessionless_kernels d_real"
  unfolding sessionless_kernels_def
proof (intro allI impI, elim conjE)
  fix opname k and f :: "nat call" and args and w :: "nat world" and b
  assume reg: "kernels d_real (opname, k) = Some (Kernel f)"
    and none: "tracing_state w = None"
  from d_real_kernels [OF reg] have "f = backend_inplace \<or> f = backend_detach"
    by simp
  then show "tracing_state (snd (f args w)) = None
        \<and> f args (w\<lparr>tracer_dispatch_disabled := b\<rparr>)
            = (fst (f args w), (snd (f args w))\<lparr>tracer_dispatch_disabled := b\<rparr>)"
    using none backend_keeps_session backend_mode_blind by auto
qed

lemma d_real_returns_self:
  "returns_self d_real ''aten::copy_''"
  "returns_self d_real ''aten::resize_''"
  "returns_self d_real ''aten::resize_as_''"
  "returns_self d_real ''aten::detach_''"
  by (auto simp: returns_self_def d_real_def backend_inplace_def split: if_splits)

lemma d_real_no_tracer: "kernels d_real (opname, Tracer) = None"
  by (simp add: d_real_def)

lemma d_bare_fails: "redispatch_fails d_bare opname"
  by (simp add: redispatch_fails_def redispatch_Tracer d_bare_def)

lemma without_kernel_fails:
  "redispatch_fails (without_kernel ''aten::detach'') ''aten::detach''"
  "redispatch_fails (without_kernel ''aten::detach_'') ''aten::detach_''"
  "redispatch_fails (without_kernel ''aten::copy_'') ''aten::copy_''"
  by (simp_all add: redispatch_fails_def redispatch_Tracer without_kernel_def d_real_def)

lemma d_strict_agrees:
  "tracer_dispatch_disabled w \<Longrightarrow>
     redispatch d_real opname Tracer args w = redispatch d_strict opname Tracer args w"
  by (simp add: redispatch_Tracer d_real_def d_strict_def only_when_disabled_def)

text \<open>
  The probe kernel of \<open>d_probe\<close> writes 1 into the heap when it is run in the
  tracer-disabled mode.
\<close>

lemma probe_in_scope:
  assumes "runs_kernel_in_scope d_probe name (ATensor t # rest) w out ret"
    and "name \<in> {''aten::copy_'', ''aten::resize_'', ''aten::resize_as_'',
                  ''aten::detach'', ''aten::detach_''}"
  shows "heap (snd out) = 1"
proof -
  from assms(1) obtain w1 r w2 where dis: "tracer_dispatch_disabled w1"
    and run: "redispatch d_probe name Tracer (ATensor t # rest) w1 = (r, w2)"
    and h: "heap (snd out) = heap w2"
    unfolding runs_kernel_in_scope_def by blast
  from assms(2) dis
  have "redispatch d_probe name Tracer (ATensor t # rest) w1 = (Inr t, w1\<lparr>heap := 1\<rparr>)"
    by (auto simp: redispatch_Tracer d_probe_def backend_probe_def)
  with run have "heap w2 = 1" by auto
  with h show ?thesis by simp
qed

lemma outcome_cases:
  "(case x of (r, w') \<Rightarrow> P r w') \<Longrightarrow> fst x = r \<Longrightarrow> P r (snd x)"
  by (cases x) auto

lemma detach_d_real:
  "fst (detach d_real t_self (traced_world fo)) = Inr (Tensor 100 10)"
  by (simp add: detach_def isTracing_def with_state_def create_def recordSourceLocation_def
      addInputs_def getValueTrace_def insertNode_def Let_def traced_world_def session0_def
      t_self_def t_src_def t_view_def findSchemaOrThrow_def d_real_def aten_schemas_def
      NoTracerDispatchMode_def redispatch_Tracer backend_detach_def addOutput_def
      setOutput_def)

lemma inplace_d_real:
  "fst (detach_' d_real t_self (traced_world fo)) = Inr t_self"
  "fst (copy_' d_real t_self t_src nb (traced_world fo)) = Inr t_self"
  "fst (resize_' d_real t_self sz mf (traced_world fo)) = Inr t_self"
  "fst (resize_as_' d_real t_self t_src mf (traced_world fo)) = Inr t_self"
  by (simp_all add: detach_'_def copy_'_def resize_'_def resize_as_'_def
      isTracing_def with_state_def create_def recordSourceLocation_def
      addInputs_def getValueTrace_def insertNode_def insert_op_def node_output_def
      ensureUniqueIfOutOfPlaced_def warn_def delValueTrace_def popIntArrayRef_def
      Let_def traced_world_def session0_def
      t_self_def t_src_def t_view_def findSchemaOrThrow_def d_real_def aten_schemas_def
      NoTracerDispatchMode_def redispatch_Tracer backend_inplace_def addOutput_def
      setOutput_def)

lemma copy_d_real_session:
  "session_after (copy_' d_real t_src t_self nb (traced_world fo)) =
     Some \<lparr>graph = \<lparr>nodes = [0 \<mapsto>
               (if fo
                then \<lparr>kind = aten_expand_as,
                      inputs = [(Some ''src'', GraphInput 0), (Some ''self'', GraphInput 1)],
                      outputs = [NodeOutput 0 0], source_range = None\<rparr>
                else \<lparr>kind = aten_copy_',
                      inputs = [(None, GraphInput 1), (None, GraphInput 0)],
                      outputs = [NodeOutput 0 0], source_range = Some 7\<rparr>)],
             next_node = 1, block = [0]\<rparr>,
           value_map = [t_self \<mapsto> GraphInput 0, t_src \<mapsto> NodeOutput 0 0,
                        t_view \<mapsto> GraphInput 2],
           force_outplace = fo, warnings = [], current_location = 7\<rparr>"
  by (auto simp add: session_after_def copy_'_def
      isTracing_def with_state_def create_def recordSourceLocation_def
      addInputs_def getValueTrace_def insertNode_def insert_op_def node_output_def
      ensureUniqueIfOutOfPlaced_def Let_def traced_world_def session0_def
      t_self_def t_src_def t_view_def findSchemaOrThrow_def d_real_def aten_schemas_def
      NoTracerDispatchMode_def redispatch_Tracer backend_inplace_def setOutput_def
      fun_eq_iff)

lemma copy_d_real_returns:
  "fst (copy_' d_real t_src t_self nb (traced_world fo)) = Inr t_src"
  by (simp add: copy_'_def
      isTracing_def with_state_def create_def recordSourceLocation_def
      addInputs_def getValueTrace_def insertNode_def insert_op_def node_output_def
      ensureUniqueIfOutOfPlaced_def Let_def traced_world_def session0_def
      t_self_def t_src_def t_view_def findSchemaOrThrow_def d_real_def aten_schemas_def
      NoTracerDispatchMode_def redispatch_Tracer backend_inplace_def setOutput_def)

text \<open>
  The example \<open>m_nested\<close>: the block runs on \<open>d_real\<close> and on \<open>d_nested\<close>, and the
  kernel of \<^verbatim>\<open>is_leaf\<close> in \<open>d_nested\<close> reaches the interceptor of \<^verbatim>\<open>detach\<close>.
\<close>

lemma d_nested_no_tracer: "kernels d_nested (opname, Tracer) = None"
  by (simp add: d_nested_def d_real_def)

lemma m_real_registered: "TORCH_LIBRARY_IMPL_aten_Tracer d_real = Inr m_real"
proof -
  obtain m where "TORCH_LIBRARY_IMPL_aten_Tracer d_real = Inr m"
    using block_succeeds [of d_real] d_real_no_tracer by blast
  then show ?thesis by (simp add: m_real_def)
qed

lemma m_nested_registered: "TORCH_LIBRARY_IMPL_aten_Tracer d_nested = Inr m_nested"
proof -
  obtain m where "TORCH_LIBRARY_IMPL_aten_Tracer d_nested = Inr m"
    using block_succeeds [of d_nested] d_nested_no_tracer by blast
  then show ?thesis by (simp add: m_nested_def)
qed

lemma leaf_via_detach_traced:
  "leaf_via_detach [ATensor self] (traced_world fo) = detach d_real self (traced_world fo)"
proof -
  have "dispatch m_real (''aten::'' @ ''detach'') [Tracer, Backend] [ATensor self] (traced_world fo)
          = detach d_real self (traced_world fo)"
    by (rule dispatch_reaches_interceptor [OF m_real_registered])
      (simp_all add: traced_world_def)
  then show ?thesis by (simp add: leaf_via_detach_def)
qed

lemma is_leaf_nested:
  "dispatch m_nested ''aten::is_leaf'' [Tracer, Backend] [ATensor self] (traced_world fo)
     = detach d_real self (traced_world fo)"
proof -
  have "''is_leaf'' \<in> set (fallthrough_ops d_nested)"
    by (simp add: fallthrough_ops_eq)
  with m_nested_registered
  have "dispatch m_nested (''aten::'' @ ''is_leaf'') [Tracer, Backend] [ATensor self]
            (traced_world fo)
          = dispatch d_nested (''aten::'' @ ''is_leaf'') (removeAll Tracer [Tracer, Backend])
              [ATensor self] (traced_world fo)"
    by (rule fallthrough_transparent)
  also have "\<dots> = leaf_via_detach [ATensor self] (traced_world fo)"
    by (simp add: dispatch_def candidates_def keys_by_priority_def d_nested_def)
  finally show ?thesis
    by (simp add: leaf_via_detach_traced)
qed

section \<open>The claims\<close>

text \<open>
  C1 (as stated: after a redispatch that fails with NoKernelFound no trace node is left
  in the graph). It fails: detach on a dispatcher with no kernel below the tracer fails
  with NoKernelFound and leaves the graph one node longer.
\<close>

theorem no_rollback_counterexample:
  "fst (detach d_bare t_self (traced_world False)) = Inl NoKernelFound
   \<and> node_count (traced_world False) = 0
   \<and> node_count (snd (detach d_bare t_self (traced_world False))) = 1"
  by (simp add: detach_def isTracing_def with_state_def create_def recordSourceLocation_def
      addInputs_def getValueTrace_def insertNode_def Let_def traced_world_def session0_def
      t_self_def t_src_def t_view_def findSchemaOrThrow_def d_bare_def aten_schemas_def
      NoTracerDispatchMode_def redispatch_Tracer node_count_def)

text \<open>
  C1 (amended). For each of copy_, detach and detach_: if tracing is active, the inputs
  of the interceptor are bound and its redispatch to the real kernel fails with
  NoKernelFound, then the call fails with NoKernelFound, and the node the interceptor
  inserted before the redispatch stays in the trace graph: nothing rolls it back. Only
  the step after the redispatch is skipped: the detach node has no output, and the
  destination keeps its previous binding.
\<close>

theorem failed_redispatch_keeps_inserted_node:
  assumes "tracing_state w = Some st" and "value_map st self = Some vself"
  shows
    "((''aten::detach'', []) \<in> set (schemas d) \<and> redispatch_fails d ''aten::detach'' \<longrightarrow>
        (\<exists>w' st'. detach d self w = (Inl NoKernelFound, w')
           \<and> tracing_state w' = Some st'
           \<and> block (graph st') = block (graph st) @ [next_node (graph st)]
           \<and> nodes (graph st') (next_node (graph st)) =
                Some \<lparr>kind = aten_detach, inputs = [(Some ''self'', vself)], outputs = [],
                      source_range = Some (current_location st)\<rparr>
           \<and> value_map st' = value_map st))
     \<and> ((''aten::detach_'', []) \<in> set (schemas d) \<and> redispatch_fails d ''aten::detach_'' \<longrightarrow>
        (\<exists>w' st'. detach_' d self w = (Inl NoKernelFound, w')
           \<and> tracing_state w' = Some st'
           \<and> block (graph st') = block (graph st) @ [next_node (graph st)]
           \<and> nodes (graph st') (next_node (graph st)) =
                Some \<lparr>kind = aten_detach, inputs = [(Some ''self'', vself)], outputs = [],
                      source_range = Some (current_location st)\<rparr>
           \<and> value_map st' self = Some vself))
     \<and> ((''aten::copy_'', []) \<in> set (schemas d) \<and> redispatch_fails d ''aten::copy_''
          \<and> value_map st src = Some vsrc \<longrightarrow>
        (\<exists>w' st' nd. copy_' d self src non_blocking w = (Inl NoKernelFound, w')
           \<and> tracing_state w' = Some st'
           \<and> block (graph st') = block (graph st) @ [next_node (graph st)]
           \<and> nodes (graph st') (next_node (graph st)) = Some nd
           \<and> kind nd = (if force_outplace st \<and> use_count w (storage self) \<le> 1
                         then aten_expand_as else aten_copy_')
           \<and> value_map st' self = Some vself))"
    (is "(?HD \<longrightarrow> ?D) \<and> (?HI \<longrightarrow> ?I) \<and> (?HC \<longrightarrow> ?C)")
proof (intro conjI impI)
  assume ?HD
  then have s1: "findSchemaOrThrow d ''aten::detach'' [] = Inr ''aten::detach''"
    and f1: "redispatch_fails d ''aten::detach''"
    by (simp_all add: findSchemaOrThrow_def)
  show ?D
    by (simp add: detach_traced [OF assms(1,2)] s1 guard_fails [OF f1]
        detach_recorded [OF assms(2)])
next
  assume ?HI
  then have s2: "findSchemaOrThrow d ''aten::detach_'' [] = Inr ''aten::detach_''"
    and f2: "redispatch_fails d ''aten::detach_''"
    by (simp_all add: findSchemaOrThrow_def)
  define n where "n = next_node (graph st)"
  define pre where "pre = ensureUniqueIfOutOfPlaced ''detach_'' self (insertNode n
                (snd (addInputs n ''self'' self
                  (recordSourceLocation n (snd (create aten_detach 0 st))))))"
  note eq = detach_inplace_traced [OF assms(1,2), of d, folded n_def, folded pre_def]
  note rec = detach_inplace_recorded [OF assms(2), folded n_def, folded pre_def]
  show ?I
    unfolding eq using assms(2)
    by (simp add: s2 guard_fails [OF f2] rec n_def ensureUniqueIfOutOfPlaced_def)
next
  assume hc: ?HC
  then have s3: "findSchemaOrThrow d ''aten::copy_'' [] = Inr ''aten::copy_''"
    and f3: "redispatch_fails d ''aten::copy_''"
    and bs: "value_map st src = Some vsrc"
    by (simp_all add: findSchemaOrThrow_def)
  define n where "n = next_node (graph st)"
  define pre where "pre =
      ensureUniqueIfOutOfPlaced ''copy_ (possibly due to an assignment)'' self
        (if force_outplace st \<and> use_count w (storage self) \<le> 1
         then insertNode n (snd (addInputs n ''self'' self
                (snd (addInputs n ''src'' src (snd (create aten_expand_as 1 st))))))
         else recordSourceLocation n (snd (insert_op aten_copy_' [vself, vsrc] st)))"
  note eq = copy_traced [OF assms(1,2) bs, of d non_blocking, folded n_def, folded pre_def]
  note rec = copy_recorded [OF assms(2) bs, of "use_count w (storage self)", folded n_def,
      folded pre_def]
  show ?C
    unfolding eq using assms(2)
    by (simp add: s3 guard_fails [OF f3] rec n_def ensureUniqueIfOutOfPlaced_def)
qed

theorem failed_redispatch_keeps_inserted_node_witness:
  "tracing_state (traced_world False) = Some (session0 False)
   \<and> value_map (session0 False) t_self = Some (GraphInput 0)
   \<and> value_map (session0 False) t_src = Some (GraphInput 1)
   \<and> (''aten::detach'', []) \<in> set (schemas (without_kernel ''aten::detach''))
   \<and> redispatch_fails (without_kernel ''aten::detach'') ''aten::detach''
   \<and> (\<exists>w' st'. detach (without_kernel ''aten::detach'') t_self (traced_world False)
          = (Inl NoKernelFound, w')
        \<and> tracing_state w' = Some st' \<and> block (graph st') = [0])
   \<and> fst (detach_' (without_kernel ''aten::detach'') t_self (traced_world False)) = Inr t_self
   \<and> (''aten::detach_'', []) \<in> set (schemas (without_kernel ''aten::detach_''))
   \<and> redispatch_fails (without_kernel ''aten::detach_'') ''aten::detach_''
   \<and> (\<exists>w' st'. detach_' (without_kernel ''aten::detach_'') t_self (traced_world False)
          = (Inl NoKernelFound, w')
        \<and> tracing_state w' = Some st' \<and> block (graph st') = [0])
   \<and> (''aten::copy_'', []) \<in> set (schemas (without_kernel ''aten::copy_''))
   \<and> redispatch_fails (without_kernel ''aten::copy_'') ''aten::copy_''
   \<and> (\<exists>w' st'. copy_' (without_kernel ''aten::copy_'') t_self t_src False (traced_world False)
          = (Inl NoKernelFound, w')
        \<and> tracing_state w' = Some st' \<and> block (graph st') = [0])"
proof -
  have h1: "tracing_state (traced_world False) = Some (session0 False)"
    by (simp add: traced_world_def)
  have h2: "value_map (session0 False) t_self = Some (GraphInput 0)"
    and h3: "value_map (session0 False) t_src = Some (GraphInput 1)"
    by (simp_all add: session0_def t_self_def t_src_def t_view_def)
  have sch: "(''aten::detach'', []) \<in> set (schemas (without_kernel ''aten::detach''))"
    "(''aten::detach_'', []) \<in> set (schemas (without_kernel ''aten::detach_''))"
    "(''aten::copy_'', []) \<in> set (schemas (without_kernel ''aten::copy_''))"
    by (simp_all add: without_kernel_def d_real_def aten_schemas_def)
  note fails = without_kernel_fails
  note inst = failed_redispatch_keeps_inserted_node [OF h1 h2]
  have a: "\<exists>w' st'. detach (without_kernel ''aten::detach'') t_self (traced_world False)
          = (Inl NoKernelFound, w')
        \<and> tracing_state w' = Some st' \<and> block (graph st') = [0]"
    using conjunct1 [OF inst, of "without_kernel ''aten::detach''"] sch(1) fails(1)
    by (auto simp add: session0_def)
  have b: "\<exists>w' st'. detach_' (without_kernel ''aten::detach_'') t_self (traced_world False)
          = (Inl NoKernelFound, w')
        \<and> tracing_state w' = Some st' \<and> block (graph st') = [0]"
    using conjunct1 [OF conjunct2 [OF inst], of "without_kernel ''aten::detach_''"]
      sch(2) fails(2)
    by (auto simp add: session0_def)
  have c: "\<exists>w' st'. copy_' (without_kernel ''aten::copy_'') t_self t_src False
            (traced_world False) = (Inl NoKernelFound, w')
        \<and> tracing_state w' = Some st' \<and> block (graph st') = [0]"
    using conjunct2 [OF conjunct2 [OF inst], of "without_kernel ''aten::copy_''" t_src
        "GraphInput 1" False] sch(3) fails(3) h3
    by (auto simp add: session0_def)
  have other: "fst (detach_' (without_kernel ''aten::detach'') t_self (traced_world False))
      = Inr t_self"
    by (simp add: detach_'_def isTracing_def with_state_def create_def
        recordSourceLocation_def addInputs_def getValueTrace_def insertNode_def
        ensureUniqueIfOutOfPlaced_def Let_def traced_world_def session0_def
        t_self_def t_src_def t_view_def findSchemaOrThrow_def without_kernel_def d_real_def
        aten_schemas_def NoTracerDispatchMode_def redispatch_Tracer backend_inplace_def
        addOutput_def setOutput_def)
  show ?thesis
    by (intro conjI) (rule h1 h2 h3 sch fails a b c other)+
qed

text \<open>
  C2. Under an active tracing session in which destination and source are bound, with
  kernels below the tracer that leave the session alone in tracer-disabled mode, a call
  to the in-place copy interceptor that returns has recorded a single node: tagged
  expand_as, with the two recorded inputs (src, self), when the prefer-outplace flag of
  the session is set and the use count of the destination's storage is at most 1; tagged
  copy_, with the same two symbolic values as inputs (self, src), when the use count is
  above 1 or the flag is off. In both cases the node has one output, the call returns the
  destination, and the destination's identity resolves to that output afterwards.
\<close>

theorem copy_records_expand_as_or_copy:
  assumes "tracing_state w = Some st"
    and "value_map st self = Some vself" and "value_map st src = Some vsrc"
    and "quiet_when_disabled d"
    and "copy_' d self src non_blocking w = (Inr result, w')"
  shows
    "result = self
     \<and> (\<exists>st'. tracing_state w' = Some st'
          \<and> block (graph st') = block (graph st) @ [next_node (graph st)]
          \<and> (\<forall>m. m \<noteq> next_node (graph st) \<longrightarrow> nodes (graph st') m = nodes (graph st) m)
          \<and> value_map st' self = Some (NodeOutput (next_node (graph st)) 0)
          \<and> (if force_outplace st \<and> use_count w (storage self) \<le> 1
              then nodes (graph st') (next_node (graph st)) =
                     Some \<lparr>kind = aten_expand_as,
                           inputs = [(Some ''src'', vsrc), (Some ''self'', vself)],
                           outputs = [NodeOutput (next_node (graph st)) 0],
                           source_range = None\<rparr>
              else nodes (graph st') (next_node (graph st)) =
                     Some \<lparr>kind = aten_copy_', inputs = [(None, vself), (None, vsrc)],
                           outputs = [NodeOutput (next_node (graph st)) 0],
                           source_range = Some (current_location st)\<rparr>))"
  using copy_run [OF assms(1-4), of non_blocking] assms(5)
  by (auto split: if_splits)

theorem copy_records_expand_as_or_copy_witness:
  "tracing_state (traced_world True) = Some (session0 True)
   \<and> value_map (session0 True) t_src = Some (GraphInput 1)
   \<and> value_map (session0 True) t_self = Some (GraphInput 0)
   \<and> quiet_when_disabled d_real
   \<and> force_outplace (session0 True)
   \<and> use_count (traced_world True) (storage t_src) = 1
   \<and> use_count (traced_world True) (storage t_self) = 2
   \<and> fst (copy_' d_real t_src t_self False (traced_world True)) = Inr t_src
   \<and> (\<exists>st'. session_after (copy_' d_real t_src t_self False (traced_world True)) = Some st'
        \<and> block (graph st') = [0]
        \<and> value_map st' t_src = Some (NodeOutput 0 0)
        \<and> nodes (graph st') 0 =
             Some \<lparr>kind = aten_expand_as,
                   inputs = [(Some ''src'', GraphInput 0), (Some ''self'', GraphInput 1)],
                   outputs = [NodeOutput 0 0], source_range = None\<rparr>)
   \<and> fst (copy_' d_real t_self t_src False (traced_world True)) = Inr t_self
   \<and> (\<exists>st'. session_after (copy_' d_real t_self t_src False (traced_world True)) = Some st'
        \<and> block (graph st') = [0]
        \<and> value_map st' t_self = Some (NodeOutput 0 0)
        \<and> nodes (graph st') 0 =
             Some \<lparr>kind = aten_copy_',
                   inputs = [(None, GraphInput 0), (None, GraphInput 1)],
                   outputs = [NodeOutput 0 0], source_range = Some 7\<rparr>)"
proof -
  have h1: "tracing_state (traced_world True) = Some (session0 True)"
    by (simp add: traced_world_def)
  have h2: "value_map (session0 True) t_src = Some (GraphInput 1)"
    and h3: "value_map (session0 True) t_self = Some (GraphInput 0)"
    by (simp_all add: session0_def t_self_def t_src_def t_view_def)
  have fo: "force_outplace (session0 True)"
    by (simp add: session0_def)
  have uc: "use_count (traced_world True) (storage t_src) = 1"
    "use_count (traced_world True) (storage t_self) = 2"
    by (simp_all add: traced_world_def t_src_def t_self_def)
  have r1: "copy_' d_real t_src t_self False (traced_world True) =
      (Inr t_src, snd (copy_' d_real t_src t_self False (traced_world True)))"
    using copy_d_real_returns [of False True] by (simp add: prod_eq_iff)
  have r2: "copy_' d_real t_self t_src False (traced_world True) =
      (Inr t_self, snd (copy_' d_real t_self t_src False (traced_world True)))"
    using inplace_d_real(2) [of False True] by (simp add: prod_eq_iff)
  have a: "\<exists>st'. session_after (copy_' d_real t_src t_self False (traced_world True)) = Some st'
        \<and> block (graph st') = [0]
        \<and> value_map st' t_src = Some (NodeOutput 0 0)
        \<and> nodes (graph st') 0 =
             Some \<lparr>kind = aten_expand_as,
                   inputs = [(Some ''src'', GraphInput 0), (Some ''self'', GraphInput 1)],
                   outputs = [NodeOutput 0 0], source_range = None\<rparr>"
    using copy_records_expand_as_or_copy [OF h1 h2 h3 d_real_quiet r1] fo uc
    by (auto simp add: session_after_def session0_def)
  have b: "\<exists>st'. session_after (copy_' d_real t_self t_src False (traced_world True)) = Some st'
        \<and> block (graph st') = [0]
        \<and> value_map st' t_self = Some (NodeOutput 0 0)
        \<and> nodes (graph st') 0 =
             Some \<lparr>kind = aten_copy_',
                   inputs = [(None, GraphInput 0), (None, GraphInput 1)],
                   outputs = [NodeOutput 0 0], source_range = Some 7\<rparr>"
    using copy_records_expand_as_or_copy [OF h1 h3 h2 d_real_quiet r2] fo uc
    by (auto simp add: session_after_def session0_def)
  show ?thesis
    using h1 h2 h3 d_real_quiet fo uc copy_d_real_returns inplace_d_real(2) a b by simp
qed




text \<open>
  C4. Under an active tracing session in which self is bound, each call to detach
  produces exactly one trace node with one recorded input (self); its output slot is
  added after the redispatched computation (the node has none if the redispatch fails),
  and the identity of the returned value resolves to that output. In-place detach
  produces a node of the same shape and rebinds the identity of its input (self) to that
  output. The kernels below the tracer leave the session alone in tracer-disabled mode.
\<close>

theorem detach_records_one_node:
  assumes "tracing_state w = Some st" and "value_map st self = Some v"
    and "quiet_when_disabled d"
  shows
    "(case detach d self w of (r, w') \<Rightarrow>
        \<exists>st'. tracing_state w' = Some st'
          \<and> block (graph st') = block (graph st) @ [next_node (graph st)]
          \<and> (\<forall>m. m \<noteq> next_node (graph st) \<longrightarrow> nodes (graph st') m = nodes (graph st) m)
          \<and> (case r of
               Inr result \<Rightarrow>
                 nodes (graph st') (next_node (graph st)) =
                   Some \<lparr>kind = aten_detach, inputs = [(Some ''self'', v)],
                         outputs = [NodeOutput (next_node (graph st)) 0],
                         source_range = Some (current_location st)\<rparr>
                 \<and> value_map st' result = Some (NodeOutput (next_node (graph st)) 0)
             | Inl e \<Rightarrow>
                 nodes (graph st') (next_node (graph st)) =
                   Some \<lparr>kind = aten_detach, inputs = [(Some ''self'', v)], outputs = [],
                         source_range = Some (current_location st)\<rparr>))
     \<and> (case detach_' d self w of (r, w') \<Rightarrow>
        \<exists>st'. tracing_state w' = Some st'
          \<and> block (graph st') = block (graph st) @ [next_node (graph st)]
          \<and> (\<forall>m. m \<noteq> next_node (graph st) \<longrightarrow> nodes (graph st') m = nodes (graph st) m)
          \<and> (case r of
               Inr result \<Rightarrow>
                 result = self
                 \<and> nodes (graph st') (next_node (graph st)) =
                   Some \<lparr>kind = aten_detach, inputs = [(Some ''self'', v)],
                         outputs = [NodeOutput (next_node (graph st)) 0],
                         source_range = Some (current_location st)\<rparr>
                 \<and> value_map st' self = Some (NodeOutput (next_node (graph st)) 0)
             | Inl e \<Rightarrow>
                 nodes (graph st') (next_node (graph st)) =
                   Some \<lparr>kind = aten_detach, inputs = [(Some ''self'', v)], outputs = [],
                         source_range = Some (current_location st)\<rparr>))"
    (is "?D \<and> ?I")
proof
  obtain r w' where run: "detach d self w = (r, w')"
    by (cases "detach d self w")
  from detach_run [OF assms] run obtain st' where
    st': "tracing_state w' = Some st'"
      "block (graph st') = block (graph st) @ [next_node (graph st)]"
      "case r of
         Inr result \<Rightarrow>
           nodes (graph st') = (nodes (graph st))(next_node (graph st) \<mapsto>
             \<lparr>kind = aten_detach, inputs = [(Some ''self'', v)],
              outputs = [NodeOutput (next_node (graph st)) 0],
              source_range = Some (current_location st)\<rparr>)
           \<and> value_map st' = (value_map st)(result \<mapsto> NodeOutput (next_node (graph st)) 0)
       | Inl e \<Rightarrow>
           nodes (graph st') = (nodes (graph st))(next_node (graph st) \<mapsto>
             \<lparr>kind = aten_detach, inputs = [(Some ''self'', v)], outputs = [],
              source_range = Some (current_location st)\<rparr>)
           \<and> value_map st' = value_map st"
    by auto
  show ?D
    using run st' by (cases r) auto
next
  obtain r w' where run: "detach_' d self w = (r, w')"
    by (cases "detach_' d self w")
  from detach_inplace_run [OF assms] run obtain st' where
    st': "tracing_state w' = Some st'"
      "block (graph st') = block (graph st) @ [next_node (graph st)]"
      "case r of
         Inr result \<Rightarrow>
           result = self
           \<and> nodes (graph st') = (nodes (graph st))(next_node (graph st) \<mapsto>
             \<lparr>kind = aten_detach, inputs = [(Some ''self'', v)],
              outputs = [NodeOutput (next_node (graph st)) 0],
              source_range = Some (current_location st)\<rparr>)
           \<and> value_map st' =
               (value_map (ensureUniqueIfOutOfPlaced ''detach_'' self st))
                 (self \<mapsto> NodeOutput (next_node (graph st)) 0)
       | Inl e \<Rightarrow>
           nodes (graph st') = (nodes (graph st))(next_node (graph st) \<mapsto>
             \<lparr>kind = aten_detach, inputs = [(Some ''self'', v)], outputs = [],
              source_range = Some (current_location st)\<rparr>)
           \<and> value_map st' = value_map (ensureUniqueIfOutOfPlaced ''detach_'' self st)"
    by auto
  show ?I
    using run st' by (cases r) auto
qed

theorem detach_records_one_node_witness:
  "tracing_state (traced_world False) = Some (session0 False)
   \<and> value_map (session0 False) t_self = Some (GraphInput 0)
   \<and> quiet_when_disabled d_real
   \<and> fst (detach d_real t_self (traced_world False)) = Inr (Tensor 100 10)
   \<and> (\<exists>st'. session_after (detach d_real t_self (traced_world False)) = Some st'
         \<and> block (graph st') = [0]
         \<and> nodes (graph st') 0 =
             Some \<lparr>kind = aten_detach, inputs = [(Some ''self'', GraphInput 0)],
                   outputs = [NodeOutput 0 0], source_range = Some 7\<rparr>
         \<and> value_map st' (Tensor 100 10) = Some (NodeOutput 0 0))
   \<and> fst (detach_' d_real t_self (traced_world False)) = Inr t_self
   \<and> (\<exists>st'. session_after (detach_' d_real t_self (traced_world False)) = Some st'
         \<and> block (graph st') = [0]
         \<and> nodes (graph st') 0 =
             Some \<lparr>kind = aten_detach, inputs = [(Some ''self'', GraphInput 0)],
                   outputs = [NodeOutput 0 0], source_range = Some 7\<rparr>
         \<and> value_map st' t_self = Some (NodeOutput 0 0))"
proof -
  have h1: "tracing_state (traced_world False) = Some (session0 False)"
    by (simp add: traced_world_def)
  have h2: "value_map (session0 False) t_self = Some (GraphInput 0)"
    by (simp add: session0_def t_self_def t_src_def t_view_def)
  note inst = detach_records_one_node [OF h1 h2 d_real_quiet]
  have a: "\<exists>st'. session_after (detach d_real t_self (traced_world False)) = Some st'
         \<and> block (graph st') = [0]
         \<and> nodes (graph st') 0 =
             Some \<lparr>kind = aten_detach, inputs = [(Some ''self'', GraphInput 0)],
                   outputs = [NodeOutput 0 0], source_range = Some 7\<rparr>
         \<and> value_map st' (Tensor 100 10) = Some (NodeOutput 0 0)"
    using outcome_cases [OF conjunct1 [OF inst] detach_d_real]
    by (auto simp add: session_after_def session0_def)
  have b: "\<exists>st'. session_after (detach_' d_real t_self (traced_world False)) = Some st'
         \<and> block (graph st') = [0]
         \<and> nodes (graph st') 0 =
             Some \<lparr>kind = aten_detach, inputs = [(Some ''self'', GraphInput 0)],
                   outputs = [NodeOutput 0 0], source_range = Some 7\<rparr>
         \<and> value_map st' t_self = Some (NodeOutput 0 0)"
    using outcome_cases [OF conjunct2 [OF inst] inplace_d_real(1)]
    by (auto simp add: session_after_def session0_def)
  show ?thesis
    using h1 h2 d_real_quiet detach_d_real inplace_d_real(1) a b by simp
qed

text \<open>
  C5. With no tracing session active, each of the five interceptors is observationally
  equal to invoking the underlying kernel directly: the same returned value and the same
  world afterwards, and still no session. The kernels are those of a runtime without a
  session (they open none and do not depend on the tracer-disabled mode), and the kernels
  of the four in-place operators return their destination.
\<close>

theorem passthrough_without_session:
  assumes "tracing_state w = None" and "sessionless_kernels d"
    and "\<forall>name \<in> {''aten::copy_'', ''aten::resize_'', ''aten::resize_as_'', ''aten::detach_''}.
           returns_self d name"
  shows
    "copy_' d self src non_blocking w
       = invoke_directly d ''aten::copy_'' [ATensor self, ATensor src, ABool non_blocking] w
     \<and> resize_' d self size' mf w
       = invoke_directly d ''aten::resize_'' [ATensor self, AIntList size', AMemoryFormat mf] w
     \<and> resize_as_' d self the_template mf w
       = invoke_directly d ''aten::resize_as_''
           [ATensor self, ATensor the_template, AMemoryFormat mf] w
     \<and> detach d self w = invoke_directly d ''aten::detach'' [ATensor self] w
     \<and> detach_' d self w = invoke_directly d ''aten::detach_'' [ATensor self] w
     \<and> (\<forall>name args. session_after (invoke_directly d name args w) = None)"
proof (intro conjI allI)
  have rs: "returns_self d ''aten::copy_''" "returns_self d ''aten::resize_''"
    "returns_self d ''aten::resize_as_''" "returns_self d ''aten::detach_''"
    using assms(3) by simp_all
  have nt: "isTracing w = False"
    using assms(1) by (simp add: isTracing_def)
  show "copy_' d self src non_blocking w
       = invoke_directly d ''aten::copy_'' [ATensor self, ATensor src, ABool non_blocking] w"
    using inplace_passthrough [OF assms(1,2) rs(1)]
    by (simp add: copy_'_def nt untraced_epilogue [OF assms(1,2)])
  show "resize_' d self size' mf w
       = invoke_directly d ''aten::resize_'' [ATensor self, AIntList size', AMemoryFormat mf] w"
    using inplace_passthrough [OF assms(1,2) rs(2)]
    by (simp add: resize_'_def nt)
  show "resize_as_' d self the_template mf w
       = invoke_directly d ''aten::resize_as_''
           [ATensor self, ATensor the_template, AMemoryFormat mf] w"
    using inplace_passthrough [OF assms(1,2) rs(3)]
    by (simp add: resize_as_'_def nt)
  show "detach_' d self w = invoke_directly d ''aten::detach_'' [ATensor self] w"
    using inplace_passthrough [OF assms(1,2) rs(4)]
    by (simp add: detach_'_def nt untraced_epilogue [OF assms(1,2)])
  show "detach d self w = invoke_directly d ''aten::detach'' [ATensor self] w"
  proof (cases "findSchemaOrThrow d ''aten::detach'' []")
    case (Inl e)
    then show ?thesis
      by (simp add: detach_def nt invoke_directly_def)
  next
    case (Inr op)
    obtain r w2 where run: "redispatch d op Tracer [ATensor self] w = (r, w2)"
      by (cases "redispatch d op Tracer [ATensor self] w")
    have w2: "tracing_state w2 = None"
      using guard_transparent(2) [OF assms(2,1), of op "[ATensor self]"] run by simp
    from assms(1) Inr run w2 show ?thesis
      by (cases r)
        (simp_all add: detach_def isTracing_def invoke_directly_def
          guard_transparent(1) [OF assms(2,1)])
  qed
  fix name args
  show "session_after (invoke_directly d name args w) = None"
    using assms(1) guard_transparent(2) [OF assms(2,1)]
    by (cases "findSchemaOrThrow d name []")
      (simp_all add: invoke_directly_def session_after_def)
qed

theorem passthrough_without_session_witness:
  "tracing_state untraced_world = None
   \<and> sessionless_kernels d_real
   \<and> returns_self d_real ''aten::copy_'' \<and> returns_self d_real ''aten::resize_''
   \<and> returns_self d_real ''aten::resize_as_'' \<and> returns_self d_real ''aten::detach_''
   \<and> detach d_real t_self untraced_world
       = invoke_directly d_real ''aten::detach'' [ATensor t_self] untraced_world
   \<and> fst (invoke_directly d_real ''aten::detach'' [ATensor t_self] untraced_world)
       = Inr (Tensor 100 10)
   \<and> heap (snd (invoke_directly d_real ''aten::detach'' [ATensor t_self] untraced_world)) = 101
   \<and> copy_' d_real t_self t_src False untraced_world
       = invoke_directly d_real ''aten::copy_'' [ATensor t_self, ATensor t_src, ABool False]
           untraced_world
   \<and> fst (invoke_directly d_real ''aten::copy_'' [ATensor t_self, ATensor t_src, ABool False]
           untraced_world) = Inr t_self
   \<and> session_after (invoke_directly d_real ''aten::copy_''
        [ATensor t_self, ATensor t_src, ABool False] untraced_world) = None"
proof -
  have h1: "tracing_state untraced_world = None"
    by (simp add: untraced_world_def)
  have h3: "\<forall>name \<in> {''aten::copy_'', ''aten::resize_'', ''aten::resize_as_'', ''aten::detach_''}.
           returns_self d_real name"
    using d_real_returns_self by simp
  note inst = passthrough_without_session [OF h1 d_real_sessionless h3,
      of t_self t_src False "[]" None t_src]
  have ev: "fst (invoke_directly d_real ''aten::detach'' [ATensor t_self] untraced_world)
       = Inr (Tensor 100 10)"
    "heap (snd (invoke_directly d_real ''aten::detach'' [ATensor t_self] untraced_world)) = 101"
    "fst (invoke_directly d_real ''aten::copy_'' [ATensor t_self, ATensor t_src, ABool False]
           untraced_world) = Inr t_self"
    by (simp_all add: invoke_directly_def findSchemaOrThrow_def d_real_def aten_schemas_def
        redispatch_Tracer backend_detach_def backend_inplace_def untraced_world_def
        t_self_def t_src_def)
  show ?thesis
    using h1 d_real_sessionless d_real_returns_self inst ev by simp
qed

text \<open>
  C6. In every interceptor the redispatch to the real kernel runs inside the scoped
  tracer-disabled mode. A call of an interceptor that reaches its redispatch (the
  operator is known and, under a session, the inputs it records are bound, resp. a size
  is stashed for resize_) makes it in a world in which the tracer-disabled mode is on and
  the heap and the use counts are those of the caller; what the kernel leaves in them is
  what the call leaves, a failure of the kernel is the failure of the call, and the result
  of a kernel that left the session alone is returned (the destination, for the in-place
  operators). What an interceptor does depends on the dispatcher only through
  redispatches made in tracer-disabled worlds; the mode the caller had is back when the
  interceptor is left, on every path, failure included; and in tracer-disabled mode no
  call resolves to a kernel of the tracer, so the operator calls of the real kernel are
  not traced.
\<close>

theorem real_kernel_runs_in_tracer_disabled_scope:
  fixes d1 d2 :: "'h dispatcher"
  shows
    "((''aten::copy_'', []) \<in> set (schemas d1)
        \<and> (tracing_state w = None
             \<or> (\<exists>st vself vsrc. tracing_state w = Some st
                   \<and> value_map st self = Some vself \<and> value_map st src = Some vsrc))
        \<longrightarrow> runs_kernel_in_scope d1 ''aten::copy_''
               [ATensor self, ATensor src, ABool non_blocking] w
               (copy_' d1 self src non_blocking w) (\<lambda>_. self))
     \<and> ((''aten::resize_'', []) \<in> set (schemas d1)
        \<and> (tracing_state w = None \<or> ''size'' \<in> set (int_array_stash w))
        \<longrightarrow> runs_kernel_in_scope d1 ''aten::resize_''
               [ATensor self, AIntList size', AMemoryFormat mf] w
               (resize_' d1 self size' mf w) (\<lambda>_. self))
     \<and> ((''aten::resize_as_'', []) \<in> set (schemas d1)
        \<longrightarrow> runs_kernel_in_scope d1 ''aten::resize_as_''
               [ATensor self, ATensor the_template, AMemoryFormat mf] w
               (resize_as_' d1 self the_template mf w) (\<lambda>_. self))
     \<and> ((''aten::detach'', []) \<in> set (schemas d1)
        \<and> (tracing_state w = None
             \<or> (\<exists>st v. tracing_state w = Some st \<and> value_map st self = Some v))
        \<longrightarrow> runs_kernel_in_scope d1 ''aten::detach'' [ATensor self] w
               (detach d1 self w) (\<lambda>x. x))
     \<and> ((''aten::detach_'', []) \<in> set (schemas d1)
        \<and> (tracing_state w = None
             \<or> (\<exists>st v. tracing_state w = Some st \<and> value_map st self = Some v))
        \<longrightarrow> runs_kernel_in_scope d1 ''aten::detach_'' [ATensor self] w
               (detach_' d1 self w) (\<lambda>_. self))
     \<and> (schemas d1 = schemas d2
        \<and> (\<forall>opname args (u :: 'h world). tracer_dispatch_disabled u \<longrightarrow>
              redispatch d1 opname Tracer args u = redispatch d2 opname Tracer args u)
        \<longrightarrow> copy_' d1 self src non_blocking w = copy_' d2 self src non_blocking w
            \<and> resize_' d1 self size' mf w = resize_' d2 self size' mf w
            \<and> resize_as_' d1 self the_template mf w = resize_as_' d2 self the_template mf w
            \<and> detach d1 self w = detach d2 self w
            \<and> detach_' d1 self w = detach_' d2 self w)
     \<and> tracer_dispatch_disabled (snd (copy_' d1 self src non_blocking w))
         = tracer_dispatch_disabled w
     \<and> tracer_dispatch_disabled (snd (resize_' d1 self size' mf w)) = tracer_dispatch_disabled w
     \<and> tracer_dispatch_disabled (snd (resize_as_' d1 self the_template mf w))
         = tracer_dispatch_disabled w
     \<and> tracer_dispatch_disabled (snd (detach d1 self w)) = tracer_dispatch_disabled w
     \<and> tracer_dispatch_disabled (snd (detach_' d1 self w)) = tracer_dispatch_disabled w
     \<and> (\<forall>opname active (u :: 'h world) k f.
           tracer_dispatch_disabled u \<and> resolve d1 opname (candidates active u) = Some (k, f)
           \<longrightarrow> k \<noteq> Tracer)"
    (is "(?HC \<longrightarrow> ?C) \<and> (?HR \<longrightarrow> ?R) \<and> (?HA \<longrightarrow> ?A) \<and> (?HD \<longrightarrow> ?D) \<and> (?HI \<longrightarrow> ?I)
         \<and> (?HN \<longrightarrow> ?N) \<and> ?F1 \<and> ?F2 \<and> ?F3 \<and> ?F4 \<and> ?F5 \<and> ?T")
proof -
  have c: "?HC \<longrightarrow> ?C" using copy_runs_kernel by blast
  have r: "?HR \<longrightarrow> ?R" using resize_runs_kernel by blast
  have a: "?HA \<longrightarrow> ?A" using resize_as_runs_kernel by blast
  have dt: "?HD \<longrightarrow> ?D" using detach_runs_kernel by blast
  have i: "?HI \<longrightarrow> ?I" using detach_inplace_runs_kernel by blast
  have n: "?HN \<longrightarrow> ?N"
  proof
    assume hn: ?HN
    then have s: "schemas d1 = schemas d2"
      and g: "\<forall>opname args (u :: 'h world). tracer_dispatch_disabled u \<longrightarrow>
              redispatch d1 opname Tracer args u = redispatch d2 opname Tracer args u"
      by blast+
    note sc = schema_cong [OF s]
    note gc = guard_cong [OF g]
    show ?N
      by (simp add: copy_'_def resize_'_def resize_as_'_def detach_def detach_'_def sc gc)
  qed
  have f: ?F1 ?F2 ?F3 ?F4 ?F5
    by (rule interceptors_restore_mode)+
  have t: ?T
  proof (intro allI impI)
    fix opname active and u :: "'h world" and k f
    assume "tracer_dispatch_disabled u \<and> resolve d1 opname (candidates active u) = Some (k, f)"
    then have "tracer_dispatch_disabled u" and "k \<in> set (candidates active u)"
      using resolve_key by blast+
    then show "k \<noteq> Tracer"
      by (auto simp: candidates_def)
  qed
  from c r a dt i n f t show ?thesis by blast
qed

theorem real_kernel_runs_in_tracer_disabled_scope_witness:
  "tracing_state (traced_world False) = Some (session0 False)
   \<and> value_map (session0 False) t_self = Some (GraphInput 0)
   \<and> value_map (session0 False) t_src = Some (GraphInput 1)
   \<and> ''size'' \<in> set (int_array_stash (traced_world False))
   \<and> tracing_state untraced_world = None
   \<and> set (schemas d_probe) = set aten_schemas
   \<and> heap (traced_world False) = 100
   \<and> heap (snd (redispatch d_probe ''aten::detach'' Tracer [ATensor t_self]
        (traced_world False))) = 2
   \<and> heap (snd (copy_' d_probe t_self t_src False (traced_world False))) = 1
   \<and> heap (snd (resize_' d_probe t_self [2, 3] None (traced_world False))) = 1
   \<and> heap (snd (resize_as_' d_probe t_self t_src None (traced_world False))) = 1
   \<and> heap (snd (detach d_probe t_self (traced_world False))) = 1
   \<and> heap (snd (detach_' d_probe t_self (traced_world False))) = 1
   \<and> heap (snd (copy_' d_probe t_self t_src False untraced_world)) = 1
   \<and> heap (snd (resize_' d_probe t_self [2, 3] None untraced_world)) = 1
   \<and> schemas d_real = schemas d_strict
   \<and> fst (redispatch d_real ''aten::detach'' Tracer [ATensor t_self] (traced_world False))
       = Inr (Tensor 100 10)
   \<and> fst (redispatch d_strict ''aten::detach'' Tracer [ATensor t_self] (traced_world False))
       = Inl BadArguments
   \<and> detach d_real t_self (traced_world False) = detach d_strict t_self (traced_world False)
   \<and> fst (detach d_strict t_self (traced_world False)) = Inr (Tensor 100 10)
   \<and> tracer_dispatch_disabled (snd (detach d_strict t_self (traced_world False))) = False
   \<and> copy_' d_real t_self t_src False (traced_world False)
       = copy_' d_strict t_self t_src False (traced_world False)"
proof -
  have h1: "tracing_state (traced_world False) = Some (session0 False)"
    and h0: "tracing_state untraced_world = None"
    and h4: "''size'' \<in> set (int_array_stash (traced_world False))"
    and h5: "heap (traced_world False) = 100"
    by (simp_all add: traced_world_def untraced_world_def)
  have h2: "value_map (session0 False) t_self = Some (GraphInput 0)"
    and h3: "value_map (session0 False) t_src = Some (GraphInput 1)"
    by (simp_all add: session0_def t_self_def t_src_def t_view_def)
  have sch: "set (schemas d_probe) = set aten_schemas"
    by (simp add: d_probe_def)
  have known: "(''aten::copy_'', []) \<in> set (schemas d_probe)"
    "(''aten::resize_'', []) \<in> set (schemas d_probe)"
    "(''aten::resize_as_'', []) \<in> set (schemas d_probe)"
    "(''aten::detach'', []) \<in> set (schemas d_probe)"
    "(''aten::detach_'', []) \<in> set (schemas d_probe)"
    by (simp_all add: d_probe_def aten_schemas_def)
  have outside: "heap (snd (redispatch d_probe ''aten::detach'' Tracer [ATensor t_self]
        (traced_world False))) = 2"
    by (simp add: redispatch_Tracer d_probe_def backend_probe_def traced_world_def)
  note traced = real_kernel_runs_in_tracer_disabled_scope
    [where ?d1.0 = d_probe and w = "traced_world False" and self = t_self and src = t_src
       and non_blocking = False and size' = "[2, 3]" and mf = None and the_template = t_src]
  note untraced = real_kernel_runs_in_tracer_disabled_scope
    [where ?d1.0 = d_probe and w = untraced_world and self = t_self and src = t_src
       and non_blocking = False and size' = "[2, 3]" and mf = None and the_template = t_src]
  have bound: "\<exists>st vself vsrc. tracing_state (traced_world False) = Some st
      \<and> value_map st t_self = Some vself \<and> value_map st t_src = Some vsrc"
    "\<exists>st v. tracing_state (traced_world False) = Some st \<and> value_map st t_self = Some v"
    using h1 h2 h3 by blast+
  have p1: "heap (snd (copy_' d_probe t_self t_src False (traced_world False))) = 1"
    by (rule probe_in_scope [where name = "''aten::copy_''"])
      (use traced known bound in blast, simp)
  have p2: "heap (snd (resize_' d_probe t_self [2, 3] None (traced_world False))) = 1"
    by (rule probe_in_scope [where name = "''aten::resize_''"])
      (use traced known h4 in blast, simp)
  have p3: "heap (snd (resize_as_' d_probe t_self t_src None (traced_world False))) = 1"
    by (rule probe_in_scope [where name = "''aten::resize_as_''"])
      (use traced known in blast, simp)
  have p4: "heap (snd (detach d_probe t_self (traced_world False))) = 1"
    by (rule probe_in_scope [where name = "''aten::detach''"])
      (use traced known bound in blast, simp)
  have p5: "heap (snd (detach_' d_probe t_self (traced_world False))) = 1"
    by (rule probe_in_scope [where name = "''aten::detach_''"])
      (use traced known bound in blast, simp)
  have p6: "heap (snd (copy_' d_probe t_self t_src False untraced_world)) = 1"
    by (rule probe_in_scope [where name = "''aten::copy_''"])
      (use untraced known h0 in blast, simp)
  have p7: "heap (snd (resize_' d_probe t_self [2, 3] None untraced_world)) = 1"
    by (rule probe_in_scope [where name = "''aten::resize_''"])
      (use untraced known h0 in blast, simp)
  have e0: "schemas d_real = schemas d_strict"
    by (simp add: d_real_def d_strict_def)
  have agree: "\<forall>opname args (u :: nat world). tracer_dispatch_disabled u \<longrightarrow>
           redispatch d_real opname Tracer args u = redispatch d_strict opname Tracer args u"
    using d_strict_agrees by blast
  note strict = real_kernel_runs_in_tracer_disabled_scope
    [where ?d1.0 = d_real and ?d2.0 = d_strict and w = "traced_world False" and self = t_self
       and src = t_src and non_blocking = False and size' = "[]" and mf = None
       and the_template = t_src]
  have ev: "fst (redispatch d_real ''aten::detach'' Tracer [ATensor t_self] (traced_world False))
       = Inr (Tensor 100 10)"
    "fst (redispatch d_strict ''aten::detach'' Tracer [ATensor t_self] (traced_world False))
       = Inl BadArguments"
    by (simp_all add: redispatch_Tracer d_real_def d_strict_def only_when_disabled_def
        backend_detach_def traced_world_def t_self_def)
  have fl: "tracer_dispatch_disabled (traced_world False) = False"
    by (simp add: traced_world_def)
  from strict e0 agree have e1: "detach d_real t_self (traced_world False)
      = detach d_strict t_self (traced_world False)"
    and e2: "copy_' d_real t_self t_src False (traced_world False)
       = copy_' d_strict t_self t_src False (traced_world False)"
    by blast+
  from strict have e3: "tracer_dispatch_disabled (snd (detach d_real t_self (traced_world False)))
       = tracer_dispatch_disabled (traced_world False)"
    by blast
  have g1: "fst (detach d_strict t_self (traced_world False)) = Inr (Tensor 100 10)"
    using detach_d_real [of False] by (simp add: e1)
  have g2: "tracer_dispatch_disabled (snd (detach d_strict t_self (traced_world False))) = False"
    using e3 by (simp add: e1 fl)
  show ?thesis
    by (intro conjI) (rule h1 h2 h3 h4 h0 sch h5 outside p1 p2 p3 p4 p5 p6 p7 e0 ev e1 g1 g2 e2)+
qed

text \<open>
  C7 (as stated: a call to an operator declared fallthrough never creates a trace node
  while a session is active). It fails: the fallthrough hands the call to the kernel
  below without entering the tracer-disabled mode, so an operator that kernel calls
  through the dispatcher is traced. Here the kernel registered for is_leaf calls detach:
  the registration block succeeds, the graph is empty before the call to is_leaf and has
  one node after it.
\<close>

theorem fallthrough_call_adds_node_counterexample:
  "TORCH_LIBRARY_IMPL_aten_Tracer d_nested = Inr m_nested
   \<and> ''is_leaf'' \<in> set (fallthrough_ops d_nested)
   \<and> node_count (traced_world False) = 0
   \<and> node_count (snd (dispatch m_nested ''aten::is_leaf'' [Tracer, Backend] [ATensor t_self]
        (traced_world False))) = 1"
proof -
  have "node_count (traced_world False) = 0"
    by (simp add: node_count_def traced_world_def session0_def)
  moreover have "node_count (snd (detach d_real t_self (traced_world False))) = 1"
    by (simp add: detach_def isTracing_def with_state_def create_def recordSourceLocation_def
        addInputs_def getValueTrace_def insertNode_def Let_def traced_world_def session0_def
        t_self_def t_src_def t_view_def findSchemaOrThrow_def d_real_def aten_schemas_def
        NoTracerDispatchMode_def redispatch_Tracer backend_detach_def addOutput_def
        setOutput_def node_count_def)
  ultimately show ?thesis
    by (simp add: m_nested_registered fallthrough_ops_eq is_leaf_nested)
qed

text \<open>
  C7 (amended). The operators registered as fallthrough under the tracer (backward,
  set_data, data, is_leaf, output_nr, _version, requires_grad_, retain_grad) and the
  operators with a tracing interceptor (resize_, resize_as_, detach, detach_, copy_) are
  disjoint, and the block registers all thirteen when none is registered yet. Once the
  block has run, registering a fallthrough for an operator that has an interceptor fails
  with DuplicateRegistration, and a call to a fallthrough operator does nothing at the
  tracer: it is, result and world, the call with the tracer tag left out, so the trace
  graph after it is the one the kernel below leaves.
\<close>

theorem fallthrough_ops_disjoint_and_transparent:
  fixes d :: "'h dispatcher"
  shows
    "fallthrough_ops d =
       [''backward'', ''set_data'', ''data'', ''is_leaf'', ''output_nr'', ''_version'',
        ''requires_grad_'', ''retain_grad'']
     \<and> interceptor_ops d = [''resize_'', ''resize_as_'', ''detach'', ''detach_'', ''copy_'']
     \<and> set (fallthrough_ops d) \<inter> set (interceptor_ops d) = {}
     \<and> ((\<forall>name \<in> set (map fst (tracer_impls d)). kernels d (''aten::'' @ name, Tracer) = None)
          \<longrightarrow> (\<exists>m. TORCH_LIBRARY_IMPL_aten_Tracer d = Inr m))
     \<and> (\<forall>m. TORCH_LIBRARY_IMPL_aten_Tracer d = Inr m \<longrightarrow>
          (\<forall>name \<in> set (interceptor_ops d).
             impl name Fallthrough m = Inl DuplicateRegistration)
          \<and> (\<forall>name \<in> set (fallthrough_ops d). \<forall>active args (w :: 'h world).
               dispatch m (''aten::'' @ name) active args w
                 = dispatch d (''aten::'' @ name) (removeAll Tracer active) args w
               \<and> node_count (snd (dispatch m (''aten::'' @ name) active args w))
                   = node_count (snd (dispatch d (''aten::'' @ name) (removeAll Tracer active)
                       args w))))"
proof (intro conjI allI impI ballI)
  show "fallthrough_ops d =
       [''backward'', ''set_data'', ''data'', ''is_leaf'', ''output_nr'', ''_version'',
        ''requires_grad_'', ''retain_grad'']"
    by (rule fallthrough_ops_eq)
  show "interceptor_ops d = [''resize_'', ''resize_as_'', ''detach'', ''detach_'', ''copy_'']"
    by (rule interceptor_ops_eq)
  show "set (fallthrough_ops d) \<inter> set (interceptor_ops d) = {}"
    by (simp add: fallthrough_ops_eq interceptor_ops_eq)
next
  assume "\<forall>name \<in> set (map fst (tracer_impls d)). kernels d (''aten::'' @ name, Tracer) = None"
  moreover have "distinct (map fst (tracer_impls d))"
    by (simp add: tracer_impls_names)
  ultimately show "\<exists>m. TORCH_LIBRARY_IMPL_aten_Tracer d = Inr m"
    unfolding TORCH_LIBRARY_IMPL_aten_Tracer_def by (intro impl_all_succeeds)
next
  fix m name
  assume m: "TORCH_LIBRARY_IMPL_aten_Tracer d = Inr m" and "name \<in> set (interceptor_ops d)"
  then obtain e where "(name, e) \<in> set (tracer_impls d)"
    using interceptor_entry by blast
  with m have "kernels m (''aten::'' @ name, Tracer) = Some e"
    unfolding TORCH_LIBRARY_IMPL_aten_Tracer_def by (rule impl_all_registers)
  then show "impl name Fallthrough m = Inl DuplicateRegistration"
    by (simp add: impl_def register_def)
next
  fix m name active args and w :: "'h world"
  assume m: "TORCH_LIBRARY_IMPL_aten_Tracer d = Inr m" and ft: "name \<in> set (fallthrough_ops d)"
  show eq: "dispatch m (''aten::'' @ name) active args w
          = dispatch d (''aten::'' @ name) (removeAll Tracer active) args w"
    using m ft by (rule fallthrough_transparent)
  show "node_count (snd (dispatch m (''aten::'' @ name) active args w))
          = node_count (snd (dispatch d (''aten::'' @ name) (removeAll Tracer active) args w))"
    unfolding eq by (rule refl)
qed

theorem fallthrough_ops_disjoint_and_transparent_witness:
  "kernels d_real (''aten::is_leaf'', Tracer) = None
   \<and> node_count (traced_world False) = 0
   \<and> (\<exists>m. TORCH_LIBRARY_IMPL_aten_Tracer d_real = Inr m
        \<and> impl ''copy_'' Fallthrough m = Inl DuplicateRegistration
        \<and> impl ''detach'' Fallthrough m = Inl DuplicateRegistration
        \<and> fst (dispatch m ''aten::is_leaf'' [Tracer, Backend] [ATensor t_self]
                 (traced_world False)) = Inr t_self
        \<and> node_count (snd (dispatch m ''aten::is_leaf'' [Tracer, Backend] [ATensor t_self]
                 (traced_world False))) = 0)"
proof -
  note inst = fallthrough_ops_disjoint_and_transparent [of d_real]
  have "\<exists>m. TORCH_LIBRARY_IMPL_aten_Tracer d_real = Inr m"
    using inst d_real_no_tracer by blast
  then obtain m where m: "TORCH_LIBRARY_IMPL_aten_Tracer d_real = Inr m" ..
  have ops: "''copy_'' \<in> set (interceptor_ops d_real)" "''detach'' \<in> set (interceptor_ops d_real)"
    "''is_leaf'' \<in> set (fallthrough_ops d_real)"
    by (simp_all add: interceptor_ops_eq fallthrough_ops_eq)
  from inst m ops have dup: "impl ''copy_'' Fallthrough m = Inl DuplicateRegistration"
    "impl ''detach'' Fallthrough m = Inl DuplicateRegistration"
    by blast+
  from inst m ops(3) have
    eq: "dispatch m (''aten::'' @ ''is_leaf'') [Tracer, Backend] [ATensor t_self] (traced_world False)
        = dispatch d_real (''aten::'' @ ''is_leaf'') (removeAll Tracer [Tracer, Backend])
            [ATensor t_self] (traced_world False)"
    by blast
  have n0: "node_count (traced_world False) = 0"
    by (simp add: node_count_def traced_world_def session0_def)
  have ev: "fst (dispatch d_real ''aten::is_leaf'' [Backend] [ATensor t_self]
                 (traced_world False)) = Inr t_self"
    "node_count (snd (dispatch d_real ''aten::is_leaf'' [Backend] [ATensor t_self]
                 (traced_world False))) = 0"
    by (simp_all add: dispatch_def candidates_def keys_by_priority_def d_real_def
        backend_inplace_def traced_world_def node_count_def session0_def)
  have a: "fst (dispatch m ''aten::is_leaf'' [Tracer, Backend] [ATensor t_self]
                 (traced_world False)) = Inr t_self"
    using eq ev(1) by simp
  have b: "node_count (snd (dispatch m ''aten::is_leaf'' [Tracer, Backend] [ATensor t_self]
                 (traced_world False))) = 0"
    using eq ev(2) by simp
  show ?thesis
    using d_real_no_tracer n0 m dup a b by blast
qed




text \<open>
  C9 (every node an interceptor creates records a source location, in both branches of
  the in-place copy). The code misses the out-of-place branch: with the prefer-outplace
  flag set and a destination whose storage has a single holder, the expand_as node is
  inserted with no source location, while the copy_ node of the other branch and the
  detach nodes carry one.
\<close>

theorem expand_as_node_without_source_location:
  "fst (copy_' d_real t_src t_self False (traced_world True)) = Inr t_src
   \<and> map_option kind (node_after (copy_' d_real t_src t_self False (traced_world True)) 0)
       = Some aten_expand_as
   \<and> map_option source_range
         (node_after (copy_' d_real t_src t_self False (traced_world True)) 0) = Some None
   \<and> map_option kind (node_after (copy_' d_real t_src t_self False (traced_world False)) 0)
       = Some aten_copy_'
   \<and> map_option source_range
         (node_after (copy_' d_real t_src t_self False (traced_world False)) 0) = Some (Some 7)"
  by (simp add: copy_d_real_session copy_d_real_returns node_after_def)

text \<open>
  C10. The condition of the out-of-place branch of the in-place copy interceptor reads
  the use count of the destination's storage: under an active session with destination
  and source bound, whatever the kernel returns, the node recorded is tagged expand_as
  exactly when the prefer-outplace flag is set and that use count is at most 1. A
  destination whose storage has another holder records a plain copy_ node even when the
  flag is set.
\<close>

theorem copy_branch_tests_storage_use_count:
  assumes "tracing_state w = Some st"
    and "value_map st self = Some vself" and "value_map st src = Some vsrc"
    and "quiet_when_disabled d"
  shows
    "\<exists>st' nd. session_after (copy_' d self src non_blocking w) = Some st'
        \<and> block (graph st') = block (graph st) @ [next_node (graph st)]
        \<and> nodes (graph st') (next_node (graph st)) = Some nd
        \<and> kind nd = (if force_outplace st \<and> use_count w (storage self) \<le> 1
                      then aten_expand_as else aten_copy_')
        \<and> (1 < use_count w (storage self) \<longrightarrow> kind nd = aten_copy_')"
proof -
  obtain r w' where run: "copy_' d self src non_blocking w = (r, w')"
    by (cases "copy_' d self src non_blocking w")
  from copy_run [OF assms, of non_blocking] run show ?thesis
    by (auto simp add: session_after_def)
qed

theorem copy_branch_tests_storage_use_count_witness:
  "tracing_state (traced_world True) = Some (session0 True)
   \<and> value_map (session0 True) t_src = Some (GraphInput 1)
   \<and> value_map (session0 True) t_self = Some (GraphInput 0)
   \<and> quiet_when_disabled d_real
   \<and> force_outplace (session0 True)
   \<and> use_count (traced_world True) (storage t_src) = 1
   \<and> use_count (traced_world True) (storage t_self) = 2
   \<and> (\<exists>st' nd. session_after (copy_' d_real t_src t_self False (traced_world True)) = Some st'
        \<and> block (graph st') = [0] \<and> nodes (graph st') 0 = Some nd \<and> kind nd = aten_expand_as)
   \<and> (\<exists>st' nd. session_after (copy_' d_real t_self t_src False (traced_world True)) = Some st'
        \<and> block (graph st') = [0] \<and> nodes (graph st') 0 = Some nd \<and> kind nd = aten_copy_')"
proof -
  have h1: "tracing_state (traced_world True) = Some (session0 True)"
    by (simp add: traced_world_def)
  have h2: "value_map (session0 True) t_src = Some (GraphInput 1)"
    and h3: "value_map (session0 True) t_self = Some (GraphInput 0)"
    by (simp_all add: session0_def t_self_def t_src_def t_view_def)
  have fo: "force_outplace (session0 True)"
    by (simp add: session0_def)
  have uc: "use_count (traced_world True) (storage t_src) = 1"
    "use_count (traced_world True) (storage t_self) = 2"
    by (simp_all add: traced_world_def t_src_def t_self_def)
  have a: "\<exists>st' nd. session_after (copy_' d_real t_src t_self False (traced_world True)) = Some st'
        \<and> block (graph st') = [0] \<and> nodes (graph st') 0 = Some nd \<and> kind nd = aten_expand_as"
    using copy_branch_tests_storage_use_count [OF h1 h2 h3 d_real_quiet, of False] fo uc
    by (auto simp add: session0_def)
  have b: "\<exists>st' nd. session_after (copy_' d_real t_self t_src False (traced_world True)) = Some st'
        \<and> block (graph st') = [0] \<and> nodes (graph st') 0 = Some nd \<and> kind nd = aten_copy_'"
    using copy_branch_tests_storage_use_count [OF h1 h3 h2 d_real_quiet, of False] fo uc
    by (auto simp add: session0_def)
  show ?thesis
    using h1 h2 h3 d_real_quiet fo uc a b by simp
qed

end
